theory Spec2Isabelle
  imports Complex_Main
begin

section \<open>Retra, the Reference Tracer: the path-tracing core\<close>

text \<open>
  A shallow embedding of \<^verbatim>\<open>src/core/ray.cpp\<close> and \<^verbatim>\<open>src/core/triplet.cpp\<close>.
  A C++ \<^verbatim>\<open>double\<close> is idealised as a \<^typ>\<open>real\<close>: rounding, infinities and NaN are
  not represented, so every statement below is about exact arithmetic, and a
  division whose divisor may be zero is guarded by a hypothesis where it matters.
  The unqualified \<^verbatim>\<open>abs\<close>, \<^verbatim>\<open>max\<close>, \<^verbatim>\<open>sqrt\<close> and \<^verbatim>\<open>pow\<close> of \<^verbatim>\<open>ray.cpp\<close> are
  declared in headers that are not among the sources; they are taken as the absolute
  value, the maximum, the square root and the power of doubles, as the spec reads them
  (\<open>cos \<theta>\<^sub>1 = |direction \<cdot> N|\<close>).
\<close>

subsection \<open>Triplets\<close>

text \<open>
  \<^verbatim>\<open>Vector\<close> and \<^verbatim>\<open>RGB\<close> are both triplets of doubles with the fields
  \<^verbatim>\<open>x\<close>, \<^verbatim>\<open>y\<close>, \<^verbatim>\<open>z\<close>; the selectors are called \<open>tx\<close>, \<open>ty\<close>, \<open>tz\<close> here.
\<close>

datatype Triplet = Triplet (tx: real) (ty: real) (tz: real)

type_synonym Vector = Triplet
type_synonym RGB = Triplet

text \<open>The constants defined at the end of \<^verbatim>\<open>triplet.cpp\<close>.\<close>

definition Black :: RGB where "Black = Triplet 0 0 0"
definition White :: RGB where "White = Triplet 1 1 1"
definition Zero :: Vector where "Zero = Triplet 0 0 0"
definition UnitX :: Vector where "UnitX = Triplet 1 0 0"
definition UnitY :: Vector where "UnitY = Triplet 0 1 0"
definition UnitZ :: Vector where "UnitZ = Triplet 0 0 1"

text \<open>
  Modelled from the spec: the operators of \<^verbatim>\<open>triplet.h\<close>, which is not among the
  sources. The spec lists \<open>a+b\<close>, \<open>a-b\<close>, \<open>a*k\<close> (scalar), \<open>a*b\<close> on colours
  (component-wise), the dot product (what \<^verbatim>\<open>Vector * Vector\<close> yields in
  \<^verbatim>\<open>ray.cpp\<close>, where it is assigned to a double), the cross product, the length and
  \<open>normalize\<close>.
\<close>

fun add :: "Triplet \<Rightarrow> Triplet \<Rightarrow> Triplet" where
  "add (Triplet a b c) (Triplet d e f) = Triplet (a + d) (b + e) (c + f)"

fun sub :: "Triplet \<Rightarrow> Triplet \<Rightarrow> Triplet" where
  "sub (Triplet a b c) (Triplet d e f) = Triplet (a - d) (b - e) (c - f)"

fun neg :: "Triplet \<Rightarrow> Triplet" where
  "neg (Triplet a b c) = Triplet (- a) (- b) (- c)"

fun scale :: "Triplet \<Rightarrow> real \<Rightarrow> Triplet" where
  "scale (Triplet a b c) k = Triplet (a * k) (b * k) (c * k)"

fun tint :: "RGB \<Rightarrow> RGB \<Rightarrow> RGB" where
  "tint (Triplet a b c) (Triplet d e f) = Triplet (a * d) (b * e) (c * f)"

fun dot :: "Vector \<Rightarrow> Vector \<Rightarrow> real" where
  "dot (Triplet a b c) (Triplet d e f) = a * d + b * e + c * f"

fun cross :: "Vector \<Rightarrow> Vector \<Rightarrow> Vector" where
  "cross (Triplet a b c) (Triplet d e f) =
     Triplet (b * f - c * e) (c * d - a * f) (a * e - b * d)"

definition length_of :: "Vector \<Rightarrow> real" where
  "length_of v = sqrt (dot v v)"

definition normalize :: "Vector \<Rightarrow> Vector" where
  "normalize v = scale v (1 / length_of v)"

subsection \<open>Schlick's approximation\<close>

text \<open>\<^verbatim>\<open>Ray::schlick\<close>, \<^verbatim>\<open>ray.cpp\<close> lines 252 to 257.\<close>

definition schlick :: "real \<Rightarrow> real \<Rightarrow> real \<Rightarrow> real" where
  "schlick n1 n2 cosTheta =
     (let R0 = (n1 - n2) * (n1 - n2) / ((n1 + n2) * (n1 + n2))
      in R0 + (1 - R0) * (1 - cosTheta) ^ 5)"

subsection \<open>Scene, ray state and environment\<close>

datatype Material = DIFFUSE | METALLIC | REFLECT | REFRACT

text \<open>A part of a thing or of a light: an opaque handle (the pointer's address).\<close>

type_synonym Surface = nat

text \<open>
  A non-emitter and an emitter of the scene. \<open>thingId\<close> and \<open>lightId\<close> stand for the
  object's address, so that comparing two records is the pointer comparison of the source.
\<close>

record Thing =
  thingId :: nat
  thingIsBackground :: bool
  thingParts :: "Surface list"
  thingColor :: RGB
  thingRefractiveIndex :: real

record Light =
  lightId :: nat
  lightIsBackground :: bool
  lightParts :: "Surface list"
  lightEmission :: RGB

text \<open>
  The ray, with the two pieces of state that live outside the C++ object but that its
  methods change or that the claims count: \<open>rngPos\<close>, the number of \<^verbatim>\<open>std::rand()\<close> calls
  made so far (the hidden state of the process-wide generator), and \<open>traceCalls\<close>, a ghost
  counter of the entries into \<^verbatim>\<open>Ray::trace\<close>. \<open>insideThings\<close> is the medium stack, top
  first.
\<close>

record Ray =
  origin :: Vector
  direction :: Vector
  color :: RGB
  depth :: int
  insideThings :: "Thing list"
  lightHit :: "Light option"
  lightPartHit :: "Surface option"
  thingHit :: "Thing option"
  thingPartHit :: "Surface option"
  rngPos :: nat
  traceCalls :: nat

text \<open>
  What the core consumes and what is not among the sources, taken as parameters: the
  scene's lists, its sky colour and direct-light estimator, the virtual methods
  \<^verbatim>\<open>interact\<close>, \<^verbatim>\<open>intersect\<close> (which reads the ray's origin and direction) and
  \<^verbatim>\<open>getNormal\<close>, the scalars \<^verbatim>\<open>rrLimit\<close>, \<^verbatim>\<open>INF\<close> (of \<^verbatim>\<open>aux.h\<close>; \<open>INF_aux\<close> here) and
  \<^verbatim>\<open>RAND_MAX\<close>, and the outcome of the random number source: \<open>rand env i\<close> is what the
  \<open>i\<close>-th call of \<^verbatim>\<open>std::rand()\<close> returns. The estimator and \<^verbatim>\<open>interact\<close> may draw
  random numbers themselves, so they take and return the position.
\<close>

record Env =
  things :: "Thing list"
  lights :: "Light list"
  sky :: RGB
  getDirectLight :: "Vector \<Rightarrow> Vector \<Rightarrow> nat \<Rightarrow> RGB \<times> nat"
  interact :: "Thing \<Rightarrow> nat \<Rightarrow> Material \<times> nat"
  intersect :: "Surface \<Rightarrow> Vector \<Rightarrow> Vector \<Rightarrow> real"
  getNormal :: "Surface \<Rightarrow> Vector \<Rightarrow> Vector"
  rrLimit :: real
  INF_aux :: real
  RAND_MAX :: nat
  rand :: "nat \<Rightarrow> nat"

datatype error = AssertionFailed | NullDereference

text \<open>What a call does: it returns, it stops the program, or it never returns.\<close>

datatype 'a outcome = Returns 'a | Fails error | Diverges

text \<open>
  Modelled from the spec: \<^verbatim>\<open>Ray::paint\<close> and \<^verbatim>\<open>Ray::operator[]\<close> of \<^verbatim>\<open>ray.h\<close>, which
  is not among the sources. The throughput is "multiplied (painted)" by a colour, and
  the query advances the origin to \<open>origin + t \<cdot> direction\<close>.
\<close>

definition paint :: "Ray \<Rightarrow> RGB \<Rightarrow> Ray" where
  "paint r c = r\<lparr>color := tint (color r) c\<rparr>"

definition pointAt :: "Ray \<Rightarrow> real \<Rightarrow> Vector" where
  "pointAt r t = add (origin r) (scale (direction r) t)"

subsection \<open>Russian roulette\<close>

text \<open>\<^verbatim>\<open>Ray::russianRoulette\<close>, \<^verbatim>\<open>ray.cpp\<close> lines 69 to 81.\<close>

definition russianRoulette :: "Env \<Rightarrow> Ray \<Rightarrow> bool \<times> Ray" where
  "russianRoulette env r =
     (let maxColor = max (tx (color r)) (max (ty (color r)) (tz (color r)))
      in if rrLimit env \<le> maxColor then (False, r)
         else let drawn = rand env (rngPos r);
                  r1 = r\<lparr>rngPos := rngPos r + 1\<rparr>
              in if maxColor < real drawn * rrLimit env / real (RAND_MAX env)
                 then (True, r1)
                 else (False, r1\<lparr>color := scale (color r1) (rrLimit env / maxColor)\<rparr>))"

subsection \<open>Random direction in a hemisphere\<close>

text \<open>
  \<^verbatim>\<open>Vector::random\<close>, \<^verbatim>\<open>triplet.cpp\<close> lines 37 to 61. The rejection loop draws three
  numbers per round and may go on forever: not returning is \<open>None\<close>.
\<close>

partial_function (option) random_loop ::
  "(nat \<Rightarrow> nat) \<Rightarrow> nat \<Rightarrow> nat \<Rightarrow> ((real \<times> real \<times> real) \<times> nat) option" where
  "random_loop rnd rmax p =
     (let x = real (rnd p) / real rmax * 2 - 1;
          y = real (rnd (p + 1)) / real rmax * 2 - 1;
          z = real (rnd (p + 2)) / real rmax
      in if 1 < x * x + y * y + z * z \<or> (x = 0 \<and> y = 0 \<and> z = 0)
         then random_loop rnd rmax (p + 3)
         else Some ((x, y, z), p + 3))"

definition tangentials :: "Vector \<Rightarrow> Vector \<times> Vector" where
  "tangentials normal =
     (if UnitZ = normal \<or> neg UnitZ = normal then (UnitX, UnitY)
      else let tangentialX = normalize (cross normal UnitZ);
               tangentialY = normalize (cross normal tangentialX)
           in (tangentialX, tangentialY))"

definition Vector_random :: "(nat \<Rightarrow> nat) \<Rightarrow> nat \<Rightarrow> nat \<Rightarrow> Vector \<Rightarrow> (Vector \<times> nat) option" where
  "Vector_random rnd rmax p normal =
     (case random_loop rnd rmax p of
        None \<Rightarrow> None
      | Some ((x, y, z), p') \<Rightarrow>
          (let (tangentialX, tangentialY) = tangentials normal;
               result = add (add (scale tangentialX x) (scale tangentialY y)) (scale normal z)
           in Some (normalize result, p')))"

subsection \<open>Nearest intersection\<close>

text \<open>
  \<^verbatim>\<open>Ray::traceToNextIntersection\<close>, \<^verbatim>\<open>ray.cpp\<close> lines 184 to 250. Each loop carries
  \<^verbatim>\<open>nearestT\<close> and the ray. The three blocks of assignments found in the four of them:
\<close>

definition hitForegroundThing :: "Thing \<Rightarrow> Surface \<Rightarrow> Ray \<Rightarrow> Ray" where
  "hitForegroundThing thing part r = r\<lparr>thingHit := Some thing, thingPartHit := Some part\<rparr>"

definition hitBackgroundThing :: "Thing \<Rightarrow> Surface \<Rightarrow> Ray \<Rightarrow> Ray" where
  "hitBackgroundThing thing part r =
     r\<lparr>lightHit := None, lightPartHit := None, thingHit := Some thing, thingPartHit := Some part\<rparr>"

definition hitLight :: "Light \<Rightarrow> Surface \<Rightarrow> Ray \<Rightarrow> Ray" where
  "hitLight light part r =
     r\<lparr>lightHit := Some light, lightPartHit := Some part, thingHit := None, thingPartHit := None\<rparr>"

text \<open>
  The inner loop over the parts of one surface: \<open>isect part\<close> is
  \<^verbatim>\<open>(*part)->intersect(*this)\<close>, and \<open>hit part\<close> the assignments made on a nearer hit.
\<close>

fun partsLoop ::
  "(Surface \<Rightarrow> real) \<Rightarrow> (Surface \<Rightarrow> Ray \<Rightarrow> Ray) \<Rightarrow> Surface list \<Rightarrow> real \<times> Ray \<Rightarrow> real \<times> Ray" where
  "partsLoop isect hit [] st = st"
| "partsLoop isect hit (part # rest) (nearestT, r) =
     (let t = isect part
      in if t \<noteq> 0 \<and> t < nearestT
         then partsLoop isect hit rest (t, hit part r)
         else partsLoop isect hit rest (nearestT, r))"

text \<open>The outer iteration, over the things and over the lights whose \<^verbatim>\<open>isBackground()\<close> is \<open>bg\<close>.\<close>

fun thingsLoop ::
  "(Surface \<Rightarrow> real) \<Rightarrow> bool \<Rightarrow> (Thing \<Rightarrow> Surface \<Rightarrow> Ray \<Rightarrow> Ray) \<Rightarrow> Thing list \<Rightarrow>
   real \<times> Ray \<Rightarrow> real \<times> Ray" where
  "thingsLoop isect bg hit [] st = st"
| "thingsLoop isect bg hit (thing # rest) st =
     (if thingIsBackground thing = bg
      then thingsLoop isect bg hit rest (partsLoop isect (hit thing) (thingParts thing) st)
      else thingsLoop isect bg hit rest st)"

fun lightsLoop ::
  "(Surface \<Rightarrow> real) \<Rightarrow> bool \<Rightarrow> (Light \<Rightarrow> Surface \<Rightarrow> Ray \<Rightarrow> Ray) \<Rightarrow> Light list \<Rightarrow>
   real \<times> Ray \<Rightarrow> real \<times> Ray" where
  "lightsLoop isect bg hit [] st = st"
| "lightsLoop isect bg hit (light # rest) st =
     (if lightIsBackground light = bg
      then lightsLoop isect bg hit rest (partsLoop isect (hit light) (lightParts light) st)
      else lightsLoop isect bg hit rest st)"

definition foregroundPass :: "Env \<Rightarrow> (Surface \<Rightarrow> real) \<Rightarrow> real \<times> Ray \<Rightarrow> real \<times> Ray" where
  "foregroundPass env isect st =
     lightsLoop isect False hitLight (lights env)
       (thingsLoop isect False hitForegroundThing (things env) st)"

definition backgroundPass :: "Env \<Rightarrow> (Surface \<Rightarrow> real) \<Rightarrow> real \<times> Ray \<Rightarrow> real \<times> Ray" where
  "backgroundPass env isect st =
     lightsLoop isect True hitLight (lights env)
       (thingsLoop isect True hitBackgroundThing (things env) st)"

definition traceToNextIntersection :: "Env \<Rightarrow> Ray \<Rightarrow> error + Ray" where
  "traceToNextIntersection env r0 =
     (if \<not> 0 \<le> depth r0 then Inl AssertionFailed
      else
        let r1 = r0\<lparr>lightHit := None, lightPartHit := None,
                    thingHit := None, thingPartHit := None\<rparr>;
            isect = (\<lambda>part. intersect env part (origin r1) (direction r1));
            (nearestT, r2) = foregroundPass env isect (INF_aux env, r1)
        in if thingHit r2 \<noteq> None \<or> lightHit r2 \<noteq> None
           then Inr (r2\<lparr>origin := pointAt r2 nearestT\<rparr>)
           else let (nearestT', r3) = backgroundPass env isect (nearestT, r2)
                in Inr (r3\<lparr>origin := pointAt r3 nearestT'\<rparr>))"

subsection \<open>Bounces and the path tracer\<close>

text \<open>
  The medium-stack lookup that \<^verbatim>\<open>bounceMetallic\<close> (lines 97 to 115) and
  \<^verbatim>\<open>bounceRefract\<close> (lines 142 to 160) both write out: \<open>into\<close>, \<open>n1\<close> and \<open>n2\<close>.
  The stack is popped and pushed back, so it is the same afterwards.
\<close>

definition mediumIndices :: "Thing list \<Rightarrow> Thing \<Rightarrow> bool \<times> real \<times> real" where
  "mediumIndices stack hit =
     (let into = (case stack of [] \<Rightarrow> True | tempTop # _ \<Rightarrow> tempTop \<noteq> hit);
          n1 = (case stack of [] \<Rightarrow> 1 | tempTop # _ \<Rightarrow> thingRefractiveIndex tempTop);
          n2 = (if into then thingRefractiveIndex hit
                else (case tl stack of [] \<Rightarrow> 1 | below # _ \<Rightarrow> thingRefractiveIndex below))
      in (into, n1, n2))"

text \<open>
  \<^verbatim>\<open>bounceRefract\<close>, lines 142 to 179: the new direction and medium stack, for the
  surface hit and its normal at the origin. Leaving (\<open>\<not> into\<close>) means that the stack
  has a top, so \<open>tl\<close> pops it.
\<close>

definition refractStep :: "Thing \<Rightarrow> Vector \<Rightarrow> Ray \<Rightarrow> Ray" where
  "refractStep hit surfaceNormal r =
     (let (into, n1, n2) = mediumIndices (insideThings r) hit;
          eta = n1 / n2;
          cosTheta1 = \<bar>dot (direction r) surfaceNormal\<bar>;
          sinTheta2Squared = eta * eta * (1 - cosTheta1 * cosTheta1)
      in if 1 < sinTheta2Squared
         then r\<lparr>direction :=
                  add (direction r) (scale (scale surfaceNormal (dot (direction r) surfaceNormal)) 2)\<rparr>
         else
           let cosTheta2 = sqrt (1 - sinTheta2Squared);
               r' = r\<lparr>direction :=
                      add (scale (direction r) eta)
                          (scale (scale surfaceNormal (eta * cosTheta1 - cosTheta2))
                                 (if dot (direction r) surfaceNormal < 0 then 1 else - 1))\<rparr>
           in if into then r'\<lparr>insideThings := hit # insideThings r'\<rparr>
              else r'\<lparr>insideThings := tl (insideThings r')\<rparr>)"

text \<open>The mirror reflection of \<^verbatim>\<open>bounceMetallic\<close> (line 117) and \<^verbatim>\<open>bounceReflect\<close> (line 131).\<close>

definition reflectStep :: "Vector \<Rightarrow> Ray \<Rightarrow> Ray" where
  "reflectStep surfaceNormal r =
     r\<lparr>direction :=
         sub (direction r) (scale (scale surfaceNormal (dot (direction r) surfaceNormal)) 2)\<rparr>"

text \<open>
  No loop and no step above touches \<^verbatim>\<open>depth\<close>; the recursion of \<^verbatim>\<open>trace\<close>
  is justified by that.
\<close>

lemma depth_russianRoulette: "russianRoulette env r = (k, r') \<Longrightarrow> depth r' = depth r"
  by (auto simp: russianRoulette_def Let_def split: if_splits)

lemma depth_partsLoop: "partsLoop isect hit ps st = (t', r') \<Longrightarrow> (\<And>p r. depth (hit p r) = depth r) \<Longrightarrow> depth r' = depth (snd st)"
proof (induction ps arbitrary: st)
  case Nil then show ?case by (cases st) simp
next
  case (Cons p ps)
  obtain t r where st: "st = (t, r)" by (cases st)
  show ?case using Cons.prems Cons.IH[of "(isect p, hit p r)"] Cons.IH[of "(t, r)"]
    by (auto simp: st Let_def split: if_splits)
qed


lemma depth_thingsLoop:
  "(\<And>th p r. depth (hit th p r) = depth r) \<Longrightarrow> depth (snd (thingsLoop isect bg hit ths st)) = depth (snd st)"
proof (induction ths arbitrary: st)
  case Nil then show ?case by simp
next
  case (Cons th ths)
  have "depth (snd (partsLoop isect (hit th) (thingParts th) st)) = depth (snd st)"
    using depth_partsLoop[of isect "hit th" "thingParts th" st] Cons.prems
    by (cases "partsLoop isect (hit th) (thingParts th) st") auto
  then show ?case using Cons by simp
qed

lemma depth_lightsLoop:
  "(\<And>l p r. depth (hit l p r) = depth r) \<Longrightarrow> depth (snd (lightsLoop isect bg hit ls st)) = depth (snd st)"
proof (induction ls arbitrary: st)
  case Nil then show ?case by simp
next
  case (Cons l ls)
  have "depth (snd (partsLoop isect (hit l) (lightParts l) st)) = depth (snd st)"
    using depth_partsLoop[of isect "hit l" "lightParts l" st] Cons.prems
    by (cases "partsLoop isect (hit l) (lightParts l) st") auto
  then show ?case using Cons by simp
qed

lemma depth_foregroundPass: "depth (snd (foregroundPass env isect st)) = depth (snd st)"
  by (simp add: foregroundPass_def depth_lightsLoop depth_thingsLoop hitLight_def hitForegroundThing_def)

lemma depth_backgroundPass: "depth (snd (backgroundPass env isect st)) = depth (snd st)"
  by (simp add: backgroundPass_def depth_lightsLoop depth_thingsLoop hitLight_def hitBackgroundThing_def)

lemma depth_traceToNextIntersection:
  assumes "traceToNextIntersection env r = Inr r'"
  shows "depth r' = depth r"
proof -
  define r1 where "r1 = r\<lparr>lightHit := None, lightPartHit := None, thingHit := None, thingPartHit := None\<rparr>"
  define isect where "isect = (\<lambda>part. intersect env part (origin r1) (direction r1))"
  obtain t2 r2 where fg: "foregroundPass env isect (INF_aux env, r1) = (t2, r2)"
    by (cases "foregroundPass env isect (INF_aux env, r1)")
  obtain t3 r3 where bg: "backgroundPass env isect (t2, r2) = (t3, r3)"
    by (cases "backgroundPass env isect (t2, r2)")
  have d2: "depth r2 = depth r"
    using depth_foregroundPass[of env isect "(INF_aux env, r1)"] fg by (simp add: r1_def)
  have d3: "depth r3 = depth r2"
    using depth_backgroundPass[of env isect "(t2, r2)"] bg by simp
  show ?thesis
    using assms fg bg d2 d3
    by (auto simp: traceToNextIntersection_def Let_def r1_def[symmetric] isect_def[symmetric]
             split: if_splits)
qed

lemma depth_reflectStep: "depth (reflectStep n r) = depth r"
  by (simp add: reflectStep_def)

lemma depth_refractStep: "depth (refractStep th n r) = depth r"
  by (simp add: refractStep_def Let_def split: prod.splits)

lemma depth_paint: "depth (paint r c) = depth r"
  by (simp add: paint_def)

text \<open>
  \<^verbatim>\<open>Ray::trace\<close> (lines 33 to 67) and the four bounces (lines 83 to 182), mutually
  recursive as in the source. The ray is threaded through; the result is the colour
  returned and the ray as the call leaves it. Each entry into \<^verbatim>\<open>trace\<close> adds one to
  the ghost counter \<open>traceCalls\<close>. A null \<^verbatim>\<open>thingHit\<close> or
  \<^verbatim>\<open>thingPartHit\<close> that the source dereferences is \<open>Fails NullDereference\<close>, the
  assertion of \<^verbatim>\<open>traceToNextIntersection\<close> is \<open>Fails AssertionFailed\<close>, and a
  rejection loop of \<^verbatim>\<open>Vector::random\<close> that never ends is \<open>Diverges\<close>. The
  \<^verbatim>\<open>default\<close> branch of the switch cannot be reached: \<open>Material\<close> has four values.
\<close>

function trace :: "Env \<Rightarrow> Ray \<Rightarrow> (RGB \<times> Ray) outcome"
  and bounceDiffuse :: "Env \<Rightarrow> Ray \<Rightarrow> (RGB \<times> Ray) outcome"
  and bounceMetallic :: "Env \<Rightarrow> Ray \<Rightarrow> (RGB \<times> Ray) outcome"
  and bounceReflect :: "Env \<Rightarrow> Ray \<Rightarrow> (RGB \<times> Ray) outcome"
  and bounceRefract :: "Env \<Rightarrow> Ray \<Rightarrow> (RGB \<times> Ray) outcome" where
  "trace env r0 =
     (let r = r0\<lparr>traceCalls := traceCalls r0 + 1\<rparr>
      in if Black = color r \<or> depth r < 0 then Returns (Black, r)
         else case lightHit r of
           Some light \<Rightarrow> (let r1 = paint r (lightEmission light) in Returns (color r1, r1))
         | None \<Rightarrow>
            (case thingHit r of
               None \<Rightarrow> (let r1 = paint r (sky env) in Returns (color r1, r1))
             | Some thing \<Rightarrow>
                (let r1 = paint r (thingColor thing);
                     r2 = r1\<lparr>depth := depth r1 - 1\<rparr>;
                     (material, g) = interact env thing (rngPos r2);
                     r3 = r2\<lparr>rngPos := g\<rparr>
                 in case material of
                      DIFFUSE \<Rightarrow> bounceDiffuse env r3
                    | METALLIC \<Rightarrow> bounceMetallic env r3
                    | REFLECT \<Rightarrow> bounceReflect env r3
                    | REFRACT \<Rightarrow> bounceRefract env r3)))"
| "bounceDiffuse env r =
     (case thingPartHit r of
        None \<Rightarrow> Fails NullDereference
      | Some part \<Rightarrow>
         (let surfaceNormal = getNormal env part (origin r);
              (light, g) = getDirectLight env (origin r) surfaceNormal (rngPos r);
              r1 = r\<lparr>rngPos := g\<rparr>;
              currentColor = tint (color r1) light
          in if depth r1 < 1 then Returns (currentColor, r1)
             else
               let (kill, r2) = russianRoulette env r1
               in if kill then Returns (currentColor, r2)
                  else
                    (case Vector_random (rand env) (RAND_MAX env) (rngPos r2) surfaceNormal of
                       None \<Rightarrow> Diverges
                     | Some (d, g') \<Rightarrow>
                        (let r3 = r2\<lparr>direction := d, rngPos := g'\<rparr>;
                             r4 = paint r3 (scale White (dot (direction r3) surfaceNormal))
                         in case traceToNextIntersection env r4 of
                              Inl e \<Rightarrow> Fails e
                            | Inr r5 \<Rightarrow>
                               (case trace env r5 of
                                  Returns (c, r6) \<Rightarrow> Returns (add currentColor c, r6)
                                | Fails e \<Rightarrow> Fails e
                                | Diverges \<Rightarrow> Diverges)))))"
| "bounceMetallic env r =
     (case thingHit r of
        None \<Rightarrow> Fails NullDereference
      | Some thing \<Rightarrow>
         (case thingPartHit r of
            None \<Rightarrow> Fails NullDereference
          | Some part \<Rightarrow>
             (let (into, n1, n2) = mediumIndices (insideThings r) thing;
                  surfaceNormal = getNormal env part (origin r);
                  r1 = reflectStep surfaceNormal r;
                  cosTheta = dot (direction r1) surfaceNormal;
                  r2 = paint r1 (scale White (schlick n1 n2 cosTheta))
              in if depth r2 < 1 then Returns (Black, r2)
                 else
                   let (kill, r3) = russianRoulette env r2
                   in if kill then Returns (Black, r3)
                      else (case traceToNextIntersection env r3 of
                              Inl e \<Rightarrow> Fails e
                            | Inr r4 \<Rightarrow> trace env r4))))"
| "bounceReflect env r =
     (if depth r < 1 then Returns (Black, r)
      else
        let (kill, r1) = russianRoulette env r
        in if kill then Returns (Black, r1)
           else (case thingPartHit r1 of
                   None \<Rightarrow> Fails NullDereference
                 | Some part \<Rightarrow>
                    (let surfaceNormal = getNormal env part (origin r1);
                         r2 = reflectStep surfaceNormal r1
                     in case traceToNextIntersection env r2 of
                          Inl e \<Rightarrow> Fails e
                        | Inr r3 \<Rightarrow> trace env r3)))"
| "bounceRefract env r =
     (if depth r < 1 then Returns (Black, r)
      else
        let (kill, r1) = russianRoulette env r
        in if kill then Returns (Black, r1)
           else (case thingHit r1 of
                   None \<Rightarrow> Fails NullDereference
                 | Some thing \<Rightarrow>
                    (case thingPartHit r1 of
                       None \<Rightarrow> Fails NullDereference
                     | Some part \<Rightarrow>
                        (let surfaceNormal = getNormal env part (origin r1);
                             r2 = refractStep thing surfaceNormal r1
                         in case traceToNextIntersection env r2 of
                              Inl e \<Rightarrow> Fails e
                            | Inr r3 \<Rightarrow> trace env r3))))"
  by pat_completeness auto


termination
  apply (relation "measure (\<lambda>x. case x of
       Inl (Inl (env, r)) \<Rightarrow> 2 * nat (depth r + 1)
     | Inl (Inr (env, r)) \<Rightarrow> 2 * nat (depth r + 1) + 1
     | Inr (Inl (env, r)) \<Rightarrow> 2 * nat (depth r + 1) + 1
     | Inr (Inr (Inl (env, r))) \<Rightarrow> 2 * nat (depth r + 1) + 1
     | Inr (Inr (Inr (env, r))) \<Rightarrow> 2 * nat (depth r + 1) + 1)")
          apply (auto simp: depth_paint depth_reflectStep depth_refractStep
      dest!: depth_traceToNextIntersection dest: depth_russianRoulette[OF sym])
  done

text \<open>The five equations are unfolded by hand, one call at a time.\<close>

declare trace.simps [simp del] bounceDiffuse.simps [simp del] bounceMetallic.simps [simp del]
  bounceReflect.simps [simp del] bounceRefract.simps [simp del]

subsection \<open>Quantities named by the properties\<close>

text \<open>
  \<open>maxColor r\<close> is the \<open>m\<close> of \<^verbatim>\<open>russianRoulette\<close>, the largest component of the
  throughput; \<open>drawnSample env r\<close> is the uniform sample \<open>u\<close>, the next outcome of
  \<^verbatim>\<open>std::rand()\<close> over \<^verbatim>\<open>RAND_MAX\<close>.
\<close>

definition maxColor :: "Ray \<Rightarrow> real" where
  "maxColor r = max (tx (color r)) (max (ty (color r)) (tz (color r)))"

definition drawnSample :: "Env \<Rightarrow> Ray \<Rightarrow> real" where
  "drawnSample env r = real (rand env (rngPos r)) / real (RAND_MAX env)"

text \<open>
  The angle between two vectors, by its cosine and its sine (the angle lies between
  \<open>0\<close> and \<open>\<pi>\<close>, so the sine is not negative).
\<close>

definition cosAngle :: "Vector \<Rightarrow> Vector \<Rightarrow> real" where
  "cosAngle a b = dot a b / (length_of a * length_of b)"

definition sinAngle :: "Vector \<Rightarrow> Vector \<Rightarrow> real" where
  "sinAngle a b = sqrt (1 - (cosAngle a b)\<^sup>2)"

text \<open>
  The parameter at which the ray \<open>r\<close> meets a part, \<^verbatim>\<open>(*part)->intersect(*this)\<close>, and
  the test each loop makes with the initial \<^verbatim>\<open>nearestT\<close>: a part is hit when the
  parameter is not zero and below \<^verbatim>\<open>INF\<close>.
\<close>

definition hitParameter :: "Env \<Rightarrow> Ray \<Rightarrow> Surface \<Rightarrow> real" where
  "hitParameter env r part = intersect env part (origin r) (direction r)"

definition isHit :: "Env \<Rightarrow> Ray \<Rightarrow> Surface \<Rightarrow> bool" where
  "isHit env r part \<longleftrightarrow> hitParameter env r part \<noteq> 0 \<and> hitParameter env r part < INF_aux env"

text \<open>
  The candidates of one pass, in the order in which the source visits them: the parts of
  the things, then the parts of the lights, whose \<^verbatim>\<open>isBackground()\<close> is \<open>bg\<close>.
  \<open>passParts\<close> are the parts of a pass, \<open>sceneParts\<close> the parts of the whole scene.
\<close>

definition thingCandidates :: "Env \<Rightarrow> bool \<Rightarrow> (Thing \<times> Surface) list" where
  "thingCandidates env bg =
     concat (map (\<lambda>thing. map (Pair thing) (thingParts thing))
                 (filter (\<lambda>thing. thingIsBackground thing = bg) (things env)))"

definition lightCandidates :: "Env \<Rightarrow> bool \<Rightarrow> (Light \<times> Surface) list" where
  "lightCandidates env bg =
     concat (map (\<lambda>light. map (Pair light) (lightParts light))
                 (filter (\<lambda>light. lightIsBackground light = bg) (lights env)))"

definition passParts :: "Env \<Rightarrow> bool \<Rightarrow> Surface list" where
  "passParts env bg = map snd (thingCandidates env bg) @ map snd (lightCandidates env bg)"

definition sceneParts :: "Env \<Rightarrow> Surface list" where
  "sceneParts env = concat (map thingParts (things env)) @ concat (map lightParts (lights env))"

text \<open>The ray after the four assignments of \<^verbatim>\<open>NULL\<close> that open the query.\<close>

definition clearedHits :: "Ray \<Rightarrow> Ray" where
  "clearedHits r = r\<lparr>lightHit := None, lightPartHit := None, thingHit := None, thingPartHit := None\<rparr>"

text \<open>No part of the pass is hit: every non-zero parameter is \<^verbatim>\<open>INF\<close> or more.\<close>

definition passMisses :: "Env \<Rightarrow> Ray \<Rightarrow> bool \<Rightarrow> bool" where
  "passMisses env r bg \<longleftrightarrow>
     (\<forall>part\<in>set (passParts env bg).
        hitParameter env r part \<noteq> 0 \<longrightarrow> INF_aux env \<le> hitParameter env r part)"

text \<open>
  The pass finds the parameter \<open>t\<close> and leaves the ray \<open>r'\<close>: \<open>t\<close> is the least non-zero
  parameter of the pass and is below \<^verbatim>\<open>INF\<close>, and the hit is the first thing part in
  the order of iteration that has it or, when no thing part has it, the first light part.
\<close>

definition passFinds :: "Env \<Rightarrow> Ray \<Rightarrow> bool \<Rightarrow> real \<Rightarrow> Ray \<Rightarrow> bool" where
  "passFinds env r bg t r' \<longleftrightarrow>
     t < INF_aux env \<and> t \<noteq> 0
     \<and> (\<forall>part\<in>set (passParts env bg). hitParameter env r part \<noteq> 0 \<longrightarrow> t \<le> hitParameter env r part)
     \<and> (case find (\<lambda>c. hitParameter env r (snd c) = t) (thingCandidates env bg) of
          Some (th, p) \<Rightarrow> r' = (clearedHits r)\<lparr>thingHit := Some th, thingPartHit := Some p\<rparr>
        | None \<Rightarrow>
           (case find (\<lambda>c. hitParameter env r (snd c) = t) (lightCandidates env bg) of
              Some (l, q) \<Rightarrow> r' = (clearedHits r)\<lparr>lightHit := Some l, lightPartHit := Some q\<rparr>
            | None \<Rightarrow> False))"

text \<open>The scene with its background surfaces taken away.\<close>

definition withoutBackground :: "Env \<Rightarrow> Env" where
  "withoutBackground env =
     env\<lparr>things := filter (\<lambda>thing. \<not> thingIsBackground thing) (things env),
         lights := filter (\<lambda>light. \<not> lightIsBackground light) (lights env)\<rparr>"

text \<open>
  The triple that the round of the rejection loop starting at position \<open>p\<close> draws, and
  whether the loop accepts it.
\<close>

definition drawnTriple :: "(nat \<Rightarrow> nat) \<Rightarrow> nat \<Rightarrow> nat \<Rightarrow> real \<times> real \<times> real" where
  "drawnTriple rnd rmax p =
     (real (rnd p) / real rmax * 2 - 1,
      real (rnd (p + 1)) / real rmax * 2 - 1,
      real (rnd (p + 2)) / real rmax)"

definition accepted :: "(nat \<Rightarrow> nat) \<Rightarrow> nat \<Rightarrow> nat \<Rightarrow> bool" where
  "accepted rnd rmax p =
     (case drawnTriple rnd rmax p of
        (x, y, z) \<Rightarrow> \<not> (1 < x * x + y * y + z * z \<or> (x = 0 \<and> y = 0 \<and> z = 0)))"

text \<open>Every rejection loop ends: from any position on, some round draws an accepted triple.\<close>

definition fairSource :: "Env \<Rightarrow> bool" where
  "fairSource env \<longleftrightarrow> (\<forall>p. \<exists>k. accepted (rand env) (RAND_MAX env) (p + 3 * k))"

text \<open>
  The call returns, having entered \<^verbatim>\<open>trace\<close> at least \<open>least\<close> and at most \<open>bound\<close>
  times since the ray \<open>r\<close>, and having decremented \<open>depth\<close> at most once per entry.
\<close>

definition returnsWithin :: "(RGB \<times> Ray) outcome \<Rightarrow> Ray \<Rightarrow> nat \<Rightarrow> nat \<Rightarrow> bool" where
  "returnsWithin out r least bound \<longleftrightarrow>
     (\<exists>c r' n. out = Returns (c, r') \<and> traceCalls r' = traceCalls r + n \<and> least \<le> n \<and> n \<le> bound
        \<and> depth r - int n \<le> depth r' \<and> depth r' \<le> depth r)"

text \<open>The nearest-hit search that each loop performs, over any list of candidates.\<close>

fun scan :: "('c \<Rightarrow> real) \<Rightarrow> 'c list \<Rightarrow> real \<times> 'c option \<Rightarrow> real \<times> 'c option" where
  "scan f [] st = st"
| "scan f (c # cs) (t, h) =
     (if f c \<noteq> 0 \<and> f c < t then scan f cs (f c, Some c) else scan f cs (t, h))"

text \<open>The ray with the hit of a search written into it.\<close>

definition putHit :: "('c \<Rightarrow> Ray \<Rightarrow> Ray) \<Rightarrow> Ray \<Rightarrow> real \<times> 'c option \<Rightarrow> real \<times> Ray" where
  "putHit hit r st = (fst st, case snd st of None \<Rightarrow> r | Some c \<Rightarrow> hit c r)"

subsection \<open>Concrete scenes and rays\<close>

text \<open>
  A scene whose collaborators are as plain as can be: the direct light is white, the
  material of a thing is fixed by \<open>material\<close>, a part is hit at the parameter \<open>isect\<close>
  gives it, every normal is \<open>UnitZ\<close>, \<^verbatim>\<open>RAND_MAX\<close> is 32767 and \<^verbatim>\<open>INF\<close> is a million.
  A fresh ray starts at the origin of the world and has hit nothing yet; \<open>insideRay\<close>
  is a fresh ray that travels inside a medium.
\<close>

definition plainEnv ::
  "Thing list \<Rightarrow> Light list \<Rightarrow> (Surface \<Rightarrow> real) \<Rightarrow> (Thing \<Rightarrow> Material) \<Rightarrow> real \<Rightarrow> (nat \<Rightarrow> nat) \<Rightarrow> Env" where
  "plainEnv ths ls isect material limit rnd =
     \<lparr>things = ths, lights = ls, sky = Triplet (1 / 2) (7 / 10) 1,
      getDirectLight = (\<lambda>point normal g. (White, g)),
      interact = (\<lambda>thing g. (material thing, g)),
      intersect = (\<lambda>part orig dir. isect part),
      getNormal = (\<lambda>part point. UnitZ),
      rrLimit = limit, INF_aux = 1000000, RAND_MAX = 32767, rand = rnd\<rparr>"

definition freshRay :: "Vector \<Rightarrow> RGB \<Rightarrow> int \<Rightarrow> Ray" where
  "freshRay dir c d =
     \<lparr>origin = Zero, direction = dir, color = c, depth = d, insideThings = [],
      lightHit = None, lightPartHit = None, thingHit = None, thingPartHit = None,
      rngPos = 0, traceCalls = 0\<rparr>"

definition insideRay :: "Thing \<Rightarrow> Vector \<Rightarrow> Ray" where
  "insideRay medium dir = (freshRay dir White 5)\<lparr>insideThings := [medium]\<rparr>"

definition grey :: RGB where "grey = Triplet (1 / 2) (1 / 2) (1 / 2)"

definition glass :: Thing where
  "glass = \<lparr>thingId = 1, thingIsBackground = False, thingParts = [0], thingColor = White,
            thingRefractiveIndex = 3 / 2\<rparr>"

definition water :: Thing where
  "water = \<lparr>thingId = 7, thingIsBackground = False, thingParts = [0], thingColor = White,
            thingRefractiveIndex = 4 / 3\<rparr>"

definition lamp :: Light where
  "lamp = \<lparr>lightId = 2, lightIsBackground = False, lightParts = [1], lightEmission = Triplet 2 2 2\<rparr>"

definition wall :: Thing where
  "wall = \<lparr>thingId = 3, thingIsBackground = True, thingParts = [5], thingColor = grey,
           thingRefractiveIndex = 1\<rparr>"

definition sun :: Light where
  "sun = \<lparr>lightId = 4, lightIsBackground = True, lightParts = [6], lightEmission = White\<rparr>"

text \<open>
  A thing and a light in the foreground, both at the parameter 2; the same in the
  background; and a foreground thing at 2 behind which nothing matters: the background
  wall is nearer, at 1.
\<close>

definition tieScene :: Env where
  "tieScene = plainEnv [glass] [lamp] (\<lambda>part. 2) (\<lambda>thing. DIFFUSE) 1 (\<lambda>i. 0)"

definition farTieScene :: Env where
  "farTieScene = plainEnv [wall] [sun] (\<lambda>part. 2) (\<lambda>thing. DIFFUSE) 1 (\<lambda>i. 0)"

definition shadowScene :: Env where
  "shadowScene = plainEnv [wall, glass] [lamp] (\<lambda>part. if part = 5 then 1 else if part = 0 then 2 else 3)
                   (\<lambda>thing. DIFFUSE) 1 (\<lambda>i. 0)"

lemmas scene_defs = tieScene_def farTieScene_def shadowScene_def plainEnv_def freshRay_def glass_def lamp_def wall_def sun_def
  passParts_def thingCandidates_def lightCandidates_def hitParameter_def sceneParts_def passMisses_def

text \<open>
  Two outcomes of the random number source: every draw is 0, and every draw is 16384
  (about half of \<^verbatim>\<open>RAND_MAX\<close>). A scene of diffuse things, and a ray that has hit one.
\<close>

definition zeroDraws :: "nat \<Rightarrow> nat" where
  "zeroDraws i = 0"

definition halfDraws :: "nat \<Rightarrow> nat" where
  "halfDraws i = 16384"

definition diffuseScene :: "(nat \<Rightarrow> nat) \<Rightarrow> Env" where
  "diffuseScene rnd = plainEnv [glass] [lamp] (\<lambda>part. 2) (\<lambda>thing. DIFFUSE) 1 rnd"

definition hitRay :: "Thing \<Rightarrow> Surface \<Rightarrow> int \<Rightarrow> Ray" where
  "hitRay thing part d = (freshRay UnitZ White d)\<lparr>thingHit := Some thing, thingPartHit := Some part\<rparr>"

section \<open>Properties\<close>

subsection \<open>Schlick's approximation\<close>

text \<open>
  C2 (amended). With equal indices \<open>R0\<close> is zero, so \<open>schlick n n c\<close> is \<open>(1 - c)\<^sup>5\<close>
  for every non-zero \<open>n\<close> and every cosine \<open>c\<close>, and not \<open>0\<close>; whenever \<open>n1 + n2\<close>
  is not zero \<open>schlick n1 n2 0 = 1\<close>; and \<open>schlick 1 1.5 1 = 0.04\<close>. The two conditions
  keep the divisor of \<open>R0\<close> away from zero, where the doubles of the source give NaN.
\<close>

theorem schlick_identities:
  "(n \<noteq> 0 \<longrightarrow> schlick n n c = (1 - c) ^ 5)
   \<and> (n1 + n2 \<noteq> 0 \<longrightarrow> schlick n1 n2 0 = 1)
   \<and> schlick 1 (3 / 2) 1 = 1 / 25"
  by (simp add: schlick_def Let_def)

text \<open>C2, the amended statement at \<open>n = 1\<close>, \<open>c = 1/2\<close> and at \<open>n1 = 1\<close>, \<open>n2 = 1.5\<close>.\<close>

theorem schlick_identities_witness:
  "(1::real) \<noteq> 0 \<and> schlick 1 1 (1 / 2) = 1 / 32 \<and> (1::real) + 3 / 2 \<noteq> 0 \<and> schlick 1 (3 / 2) 0 = 1"
  using schlick_identities[of 1 "1 / 2" 1 "3 / 2"] by (simp add: power_divide)

text \<open>
  C2 as stated fails: at \<open>n = 1\<close> and \<open>c = 0\<close> the source computes \<open>R0 = 0\<close> and returns
  \<open>0 + 1 \<cdot> 1\<^sup>5 = 1\<close>, not \<open>0\<close>.
\<close>

theorem schlick_equal_indices_counterexample: "schlick 1 1 0 = 1 \<and> schlick 1 1 0 \<noteq> 0"
  by (simp add: schlick_def)

subsection \<open>Russian roulette\<close>

text \<open>
  C4. With \<open>m\<close> the largest colour component: if \<open>rrLimit \<le> m\<close> the call returns false;
  otherwise it returns true exactly when \<open>m < u \<cdot> rrLimit\<close> for the drawn sample \<open>u\<close>;
  and when the path survives the draw the colour is multiplied by \<open>rrLimit / m\<close>
  (a quotient that is one for \<open>m \<noteq> 0\<close> only).
\<close>

theorem russianRoulette_decision:
  "(rrLimit env \<le> maxColor r \<longrightarrow> fst (russianRoulette env r) = False)
   \<and> (\<not> rrLimit env \<le> maxColor r \<longrightarrow>
        (fst (russianRoulette env r) = True \<longleftrightarrow> maxColor r < drawnSample env r * rrLimit env))
   \<and> (\<not> rrLimit env \<le> maxColor r \<and> \<not> maxColor r < drawnSample env r * rrLimit env \<and> maxColor r \<noteq> 0 \<longrightarrow>
        fst (russianRoulette env r) = False
        \<and> color (snd (russianRoulette env r)) = scale (color r) (rrLimit env / maxColor r))"
  by (simp add: russianRoulette_def maxColor_def drawnSample_def Let_def)

text \<open>
  C4 at three inputs with \<open>rrLimit = 1\<close>: a white ray (no draw), a grey ray and the draw
  \<^verbatim>\<open>RAND_MAX\<close> (killed), a grey ray and the draw 0 (survives, and grey becomes white).
\<close>

theorem russianRoulette_decision_witness:
  "rrLimit (plainEnv [] [] (\<lambda>p. 0) (\<lambda>t. DIFFUSE) 1 (\<lambda>i. 0)) \<le> maxColor (freshRay UnitZ White 5)
   \<and> fst (russianRoulette (plainEnv [] [] (\<lambda>p. 0) (\<lambda>t. DIFFUSE) 1 (\<lambda>i. 0)) (freshRay UnitZ White 5)) = False
   \<and> \<not> rrLimit (plainEnv [] [] (\<lambda>p. 0) (\<lambda>t. DIFFUSE) 1 (\<lambda>i. 32767)) \<le> maxColor (freshRay UnitZ grey 5)
   \<and> maxColor (freshRay UnitZ grey 5)
       < drawnSample (plainEnv [] [] (\<lambda>p. 0) (\<lambda>t. DIFFUSE) 1 (\<lambda>i. 32767)) (freshRay UnitZ grey 5)
         * rrLimit (plainEnv [] [] (\<lambda>p. 0) (\<lambda>t. DIFFUSE) 1 (\<lambda>i. 32767))
   \<and> fst (russianRoulette (plainEnv [] [] (\<lambda>p. 0) (\<lambda>t. DIFFUSE) 1 (\<lambda>i. 32767)) (freshRay UnitZ grey 5)) = True
   \<and> \<not> maxColor (freshRay UnitZ grey 5)
       < drawnSample (plainEnv [] [] (\<lambda>p. 0) (\<lambda>t. DIFFUSE) 1 (\<lambda>i. 0)) (freshRay UnitZ grey 5)
         * rrLimit (plainEnv [] [] (\<lambda>p. 0) (\<lambda>t. DIFFUSE) 1 (\<lambda>i. 0))
   \<and> maxColor (freshRay UnitZ grey 5) \<noteq> 0
   \<and> color (snd (russianRoulette (plainEnv [] [] (\<lambda>p. 0) (\<lambda>t. DIFFUSE) 1 (\<lambda>i. 0)) (freshRay UnitZ grey 5)))
       = White"
  using russianRoulette_decision[of "plainEnv [] [] (\<lambda>p. 0) (\<lambda>t. DIFFUSE) 1 (\<lambda>i. 0)" "freshRay UnitZ White 5"]
        russianRoulette_decision[of "plainEnv [] [] (\<lambda>p. 0) (\<lambda>t. DIFFUSE) 1 (\<lambda>i. 32767)" "freshRay UnitZ grey 5"]
        russianRoulette_decision[of "plainEnv [] [] (\<lambda>p. 0) (\<lambda>t. DIFFUSE) 1 (\<lambda>i. 0)" "freshRay UnitZ grey 5"]
  by (simp add: plainEnv_def freshRay_def maxColor_def drawnSample_def White_def grey_def)

text \<open>
  C10. \<^verbatim>\<open>russianRoulette\<close> leaves the colour as it is when it returns true and when
  \<open>rrLimit \<le> m\<close> (then the whole ray is unchanged); the colour changes only when
  \<open>m < rrLimit\<close>, the draw survives and the call returns false.
\<close>

theorem russianRoulette_frame:
  "(fst (russianRoulette env r) \<longrightarrow> color (snd (russianRoulette env r)) = color r)
   \<and> (rrLimit env \<le> maxColor r \<longrightarrow> russianRoulette env r = (False, r))
   \<and> (color (snd (russianRoulette env r)) \<noteq> color r \<longrightarrow>
        \<not> fst (russianRoulette env r) \<and> maxColor r < rrLimit env
        \<and> \<not> maxColor r < drawnSample env r * rrLimit env)"
proof (cases "rrLimit env \<le> maxColor r")
  case True
  then show ?thesis
    by (simp add: russianRoulette_def maxColor_def Let_def)
next
  case False
  show ?thesis
  proof (cases "maxColor r < drawnSample env r * rrLimit env")
    case True
    with False show ?thesis
      by (simp add: russianRoulette_def maxColor_def drawnSample_def Let_def)
  next
    case survives: False
    with False show ?thesis
      by (simp add: russianRoulette_def maxColor_def drawnSample_def Let_def not_le)
  qed
qed

text \<open>C10 at the killed grey ray, the white ray and the surviving grey ray.\<close>

theorem russianRoulette_frame_witness:
  "fst (russianRoulette (plainEnv [] [] (\<lambda>p. 0) (\<lambda>t. DIFFUSE) 1 (\<lambda>i. 32767)) (freshRay UnitZ grey 5))
   \<and> color (snd (russianRoulette (plainEnv [] [] (\<lambda>p. 0) (\<lambda>t. DIFFUSE) 1 (\<lambda>i. 32767)) (freshRay UnitZ grey 5))) = grey
   \<and> rrLimit (plainEnv [] [] (\<lambda>p. 0) (\<lambda>t. DIFFUSE) 1 (\<lambda>i. 0)) \<le> maxColor (freshRay UnitZ White 5)
   \<and> russianRoulette (plainEnv [] [] (\<lambda>p. 0) (\<lambda>t. DIFFUSE) 1 (\<lambda>i. 0)) (freshRay UnitZ White 5)
        = (False, freshRay UnitZ White 5)
   \<and> color (snd (russianRoulette (plainEnv [] [] (\<lambda>p. 0) (\<lambda>t. DIFFUSE) 1 (\<lambda>i. 0)) (freshRay UnitZ grey 5)))
        \<noteq> color (freshRay UnitZ grey 5)
   \<and> \<not> fst (russianRoulette (plainEnv [] [] (\<lambda>p. 0) (\<lambda>t. DIFFUSE) 1 (\<lambda>i. 0)) (freshRay UnitZ grey 5))"
  using russianRoulette_frame[of "plainEnv [] [] (\<lambda>p. 0) (\<lambda>t. DIFFUSE) 1 (\<lambda>i. 32767)" "freshRay UnitZ grey 5"]
        russianRoulette_frame[of "plainEnv [] [] (\<lambda>p. 0) (\<lambda>t. DIFFUSE) 1 (\<lambda>i. 0)" "freshRay UnitZ White 5"]
        russianRoulette_frame[of "plainEnv [] [] (\<lambda>p. 0) (\<lambda>t. DIFFUSE) 1 (\<lambda>i. 0)" "freshRay UnitZ grey 5"]
  by (simp add: plainEnv_def freshRay_def maxColor_def drawnSample_def White_def grey_def russianRoulette_def Let_def)

subsection \<open>Refraction\<close>

lemma dot_add_left: "dot (add u v) w = dot u w + dot v w"
  by (cases u; cases v; cases w) (simp add: algebra_simps)

lemma dot_scale_left: "dot (scale u k) w = k * dot u w"
  by (cases u; cases w) (simp add: algebra_simps)

lemma dot_commute: "dot u v = dot v u"
  by (cases u; cases v) (simp add: algebra_simps)

lemma dot_add_right: "dot w (add u v) = dot w u + dot w v"
  by (cases u; cases v; cases w) (simp add: algebra_simps)

lemma dot_scale_right: "dot w (scale u k) = k * dot w u"
  by (cases u; cases w) (simp add: algebra_simps)

lemma length_of_unit: "length_of v = 1 \<longleftrightarrow> dot v v = 1"
  by (simp add: length_of_def)

text \<open>The refracted direction of line 174 is a unit vector whose cosine to the normal is \<open>\<plusminus> cos \<theta>\<^sub>2\<close>.\<close>

lemma refracted_direction:
  fixes d N :: Vector and eta :: real
  assumes dd: "dot d d = 1" and nn: "dot N N = 1"
    and S: "eta * eta * (1 - \<bar>dot d N\<bar> * \<bar>dot d N\<bar>) \<le> 1"
  defines "c2 \<equiv> sqrt (1 - eta * eta * (1 - \<bar>dot d N\<bar> * \<bar>dot d N\<bar>))"
  defines "d' \<equiv> add (scale d eta)
                     (scale (scale N (eta * \<bar>dot d N\<bar> - c2)) (if dot d N < 0 then 1 else - 1))"
  shows "dot d' d' = 1" and "(dot d' N)\<^sup>2 = c2\<^sup>2"
proof -
  have c2sq: "c2 * c2 = 1 - eta * eta * (1 - \<bar>dot d N\<bar> * \<bar>dot d N\<bar>)"
    using S by (simp add: c2_def)
  have absq: "\<bar>dot d N\<bar> * \<bar>dot d N\<bar> = dot d N * dot d N"
    by simp
  show "dot d' d' = 1"
  proof (cases "dot d N < 0")
    case True
    then have "dot d' d' = eta * eta + 2 * eta * dot d N * (- eta * dot d N - c2)
                 + (- eta * dot d N - c2) * (- eta * dot d N - c2)"
      by (simp add: d'_def dot_add_left dot_add_right dot_scale_left dot_scale_right dd nn
            dot_commute[of N d] algebra_simps)
    also have "\<dots> = eta * eta * (1 - dot d N * dot d N) + c2 * c2"
      by (simp add: algebra_simps)
    finally show ?thesis using c2sq absq by simp
  next
    case False
    then have "dot d' d' = eta * eta - 2 * eta * dot d N * (eta * dot d N - c2)
                 + (eta * dot d N - c2) * (eta * dot d N - c2)"
      by (simp add: d'_def dot_add_left dot_add_right dot_scale_left dot_scale_right dd nn
            dot_commute[of N d] algebra_simps)
    also have "\<dots> = eta * eta * (1 - dot d N * dot d N) + c2 * c2"
      by (simp add: algebra_simps)
    finally show ?thesis using c2sq absq by simp
  qed
  show "(dot d' N)\<^sup>2 = c2\<^sup>2"
  proof (cases "dot d N < 0")
    case True
    then have "dot d' N = - c2"
      by (simp add: d'_def dot_add_left dot_scale_left nn algebra_simps)
    then show ?thesis by simp
  next
    case False
    then have "dot d' N = c2"
      by (simp add: d'_def dot_add_left dot_scale_left nn algebra_simps)
    then show ?thesis by simp
  qed
qed

text \<open>
  C5. In the transmission branch of \<^verbatim>\<open>bounceRefract\<close> (\<open>sin\<^sup>2 \<theta>\<^sub>2 \<le> 1\<close>), for a unit
  direction and a unit normal, the new direction obeys Snell's law
  \<open>n1 \<cdot> sin \<theta>\<^sub>1 = n2 \<cdot> sin \<theta>\<^sub>2\<close>, where \<open>n1\<close> and \<open>n2\<close> are the indices the medium stack
  gives and are positive, \<open>\<theta>\<^sub>1\<close> is the angle between the old direction and the normal
  and \<open>\<theta>\<^sub>2\<close> the angle between the new direction and the normal.
\<close>

theorem bounceRefract_snell:
  assumes unit_d: "length_of (direction r) = 1" and unit_N: "length_of N = 1"
    and idx: "mediumIndices (insideThings r) hit = (into, n1, n2)"
    and pos: "0 < n1" "0 < n2"
    and transmit: "\<not> 1 < (n1 / n2) * (n1 / n2) * (1 - \<bar>dot (direction r) N\<bar> * \<bar>dot (direction r) N\<bar>)"
  shows "n1 * sinAngle (direction r) N = n2 * sinAngle (direction (refractStep hit N r)) N"
proof -
  define d where "d = direction r"
  define eta where "eta = n1 / n2"
  define S where "S = eta * eta * (1 - \<bar>dot d N\<bar> * \<bar>dot d N\<bar>)"
  define c2 where "c2 = sqrt (1 - S)"
  define d' where "d' = add (scale d eta)
                     (scale (scale N (eta * \<bar>dot d N\<bar> - c2)) (if dot d N < 0 then 1 else - 1))"
  have dd: "dot d d = 1" and nn: "dot N N = 1"
    using unit_d unit_N by (simp_all add: length_of_unit d_def)
  have S1: "S \<le> 1" using transmit by (simp add: S_def eta_def d_def)
  have out: "direction (refractStep hit N r) = d'"
    using transmit idx
    by (simp add: refractStep_def Let_def d'_def c2_def S_def eta_def d_def)
  have unit': "dot d' d' = 1" and cos': "(dot d' N)\<^sup>2 = c2\<^sup>2"
    using refracted_direction[OF dd nn S1[unfolded S_def]]
    by (simp_all add: d'_def c2_def S_def)
  have len': "length_of d' = 1" using unit' by (simp add: length_of_unit)
  have "sinAngle d' N = sqrt (1 - c2\<^sup>2)"
    using cos' by (simp add: sinAngle_def cosAngle_def len' unit_N)
  also have "c2\<^sup>2 = 1 - S" using S1 by (simp add: c2_def)
  finally have "sinAngle d' N = sqrt (eta\<^sup>2 * (1 - (dot d N)\<^sup>2))"
    by (simp add: S_def power2_eq_square)
  then have sin': "sinAngle d' N = \<bar>eta\<bar> * sqrt (1 - (dot d N)\<^sup>2)"
    by (simp add: real_sqrt_mult)
  have sin1: "sinAngle d N = sqrt (1 - (dot d N)\<^sup>2)"
    using unit_d unit_N by (simp add: sinAngle_def cosAngle_def d_def)
  have "n2 * \<bar>eta\<bar> = n1" using pos by (simp add: eta_def)
  then have "n2 * sinAngle d' N = n1 * sinAngle d N"
    using sin' sin1 by (metis mult.assoc)
  then show ?thesis by (simp add: out d_def)
qed

text \<open>
  C5 for a ray that leaves water (\<open>n = 4/3\<close>) for the vacuum with \<open>sin \<theta>\<^sub>1 = 3/5\<close>.
\<close>

theorem bounceRefract_snell_witness:
  "length_of (direction (insideRay water (Triplet (3 / 5) 0 (4 / 5)))) = 1
   \<and> length_of UnitZ = 1
   \<and> mediumIndices (insideThings (insideRay water (Triplet (3 / 5) 0 (4 / 5)))) water = (False, 4 / 3, 1)
   \<and> (0::real) < 4 / 3 \<and> (0::real) < 1
   \<and> \<not> 1 < (4 / 3 / 1) * (4 / 3 / 1) *
            (1 - \<bar>dot (direction (insideRay water (Triplet (3 / 5) 0 (4 / 5)))) UnitZ\<bar>
               * \<bar>dot (direction (insideRay water (Triplet (3 / 5) 0 (4 / 5)))) UnitZ\<bar>)
   \<and> 4 / 3 * sinAngle (direction (insideRay water (Triplet (3 / 5) 0 (4 / 5)))) UnitZ
       = 1 * sinAngle (direction (refractStep water UnitZ (insideRay water (Triplet (3 / 5) 0 (4 / 5))))) UnitZ"
proof -
  have h1: "length_of (direction (insideRay water (Triplet (3 / 5) 0 (4 / 5)))) = 1"
    by (simp add: insideRay_def freshRay_def length_of_def)
  have h2: "length_of UnitZ = 1"
    by (simp add: UnitZ_def length_of_def)
  have h3: "mediumIndices (insideThings (insideRay water (Triplet (3 / 5) 0 (4 / 5)))) water = (False, 4 / 3, 1)"
    by (simp add: insideRay_def freshRay_def mediumIndices_def water_def)
  have h4: "\<not> 1 < (4 / 3 / 1) * (4 / 3 / 1) *
            (1 - \<bar>dot (direction (insideRay water (Triplet (3 / 5) 0 (4 / 5)))) UnitZ\<bar>
               * \<bar>dot (direction (insideRay water (Triplet (3 / 5) 0 (4 / 5)))) UnitZ\<bar>)"
    by (simp add: insideRay_def freshRay_def UnitZ_def)
  show ?thesis
    using h1 h2 h3 h4 bounceRefract_snell[OF h1 h2 h3 _ _ h4] by simp
qed

text \<open>
  C1 fails on the source. A ray inside glass (\<open>n = 1.5\<close>) with the direction
  \<open>(4/5, 0, 3/5)\<close> meets the surface of normal \<open>UnitZ\<close> on its way out:
  \<open>sin\<^sup>2 \<theta>\<^sub>2 = 1.44 > 1\<close>, total internal reflection. Line 168 adds
  \<open>2 (d \<cdot> N) N\<close> where the mirror reflection of lines 117 and 131 subtracts it, so the
  new direction is \<open>(4/5, 0, 9/5)\<close> and not the reflection \<open>(4/5, 0, -3/5)\<close>.
  The medium stack is unchanged.
\<close>

theorem bounceRefract_total_internal_reflection_example:
  "1 < (3 / 2 / 1) * (3 / 2 / 1) *
         (1 - \<bar>dot (Triplet (4 / 5) 0 (3 / 5)) UnitZ\<bar> * \<bar>dot (Triplet (4 / 5) 0 (3 / 5)) UnitZ\<bar>)
   \<and> mediumIndices [glass] glass = (False, 3 / 2, 1)
   \<and> direction (refractStep glass UnitZ (insideRay glass (Triplet (4 / 5) 0 (3 / 5)))) = Triplet (4 / 5) 0 (9 / 5)
   \<and> sub (Triplet (4 / 5) 0 (3 / 5)) (scale (scale UnitZ (dot (Triplet (4 / 5) 0 (3 / 5)) UnitZ)) 2)
       = Triplet (4 / 5) 0 (- 3 / 5)
   \<and> direction (reflectStep UnitZ (insideRay glass (Triplet (4 / 5) 0 (3 / 5)))) = Triplet (4 / 5) 0 (- 3 / 5)
   \<and> insideThings (refractStep glass UnitZ (insideRay glass (Triplet (4 / 5) 0 (3 / 5)))) = [glass]"
  by (simp add: refractStep_def reflectStep_def mediumIndices_def insideRay_def freshRay_def glass_def UnitZ_def)

subsection \<open>Nearest intersection\<close>

lemma scan_append: "scan f (xs @ ys) st = scan f ys (scan f xs st)"
proof (induction xs arbitrary: st)
  case Nil then show ?case by simp
next
  case (Cons c cs)
  obtain t h where "st = (t, h)" by (cases st)
  with Cons show ?case by simp
qed

lemma scan_result:
  "scan f xs (t, h) = (t', h') \<Longrightarrow>
     (t' = t \<and> h' = h \<and> (\<forall>c\<in>set xs. f c \<noteq> 0 \<longrightarrow> t \<le> f c))
   \<or> (t' < t \<and> t' \<noteq> 0 \<and> (\<forall>c\<in>set xs. f c \<noteq> 0 \<longrightarrow> t' \<le> f c)
       \<and> (\<exists>c. h' = Some c \<and> find (\<lambda>x. f x = t') xs = Some c))"
proof (induction xs arbitrary: t h)
  case Nil then show ?case by simp
next
  case (Cons c cs)
  show ?case
  proof (cases "f c \<noteq> 0 \<and> f c < t")
    case True
    with Cons.prems have run: "scan f cs (f c, Some c) = (t', h')" by simp
    from Cons.IH[OF run] True show ?thesis by auto
  next
    case False
    with Cons.prems have run: "scan f cs (t, h) = (t', h')" by auto
    from Cons.IH[OF run] False show ?thesis by auto
  qed
qed

lemma partsLoop_scan:
  assumes absorb: "\<And>c c' x. hit c (hit c' x) = hit c x"
  shows "partsLoop isect (\<lambda>p. hit (s, p)) ps (putHit hit r (t, h))
         = putHit hit r (scan (\<lambda>c. isect (snd c)) (map (Pair s) ps) (t, h))"
proof (induction ps arbitrary: t h)
  case Nil then show ?case by (simp add: putHit_def)
next
  case (Cons p ps)
  show ?case
  proof (cases "isect p \<noteq> 0 \<and> isect p < t")
    case True
    have "hit (s, p) (case h of None \<Rightarrow> r | Some c \<Rightarrow> hit c r) = hit (s, p) r"
      by (cases h) (simp_all add: absorb)
    then show ?thesis using True Cons.IH[of "isect p" "Some (s, p)"]
      by (simp add: Let_def putHit_def)
  next
    case False
    then show ?thesis using Cons.IH[of t h] by (auto simp: Let_def putHit_def)
  qed
qed

lemma thingsLoop_scan:
  assumes absorb: "\<And>c c' x. case_prod hit c (case_prod hit c' x) = case_prod hit c x"
  shows "thingsLoop isect bg hit ths (putHit (case_prod hit) r st)
         = putHit (case_prod hit) r
             (scan (\<lambda>c. isect (snd c))
                (concat (map (\<lambda>thing. map (Pair thing) (thingParts thing))
                   (filter (\<lambda>thing. thingIsBackground thing = bg) ths))) st)"
proof (induction ths arbitrary: st)
  case Nil then show ?case by simp
next
  case (Cons th ths)
  obtain t h where st: "st = (t, h)" by (cases st)
  have eta: "hit th = (\<lambda>p. case_prod hit (th, p))" by simp
  show ?case
  proof (cases "thingIsBackground th = bg")
    case True
    have "partsLoop isect (hit th) (thingParts th) (putHit (case_prod hit) r st)
          = putHit (case_prod hit) r (scan (\<lambda>c. isect (snd c)) (map (Pair th) (thingParts th)) st)"
      unfolding st by (subst eta) (rule partsLoop_scan[OF absorb])
    then show ?thesis using True Cons.IH by (simp add: scan_append)
  next
    case False
    then show ?thesis using Cons.IH by simp
  qed
qed

lemma lightsLoop_scan:
  assumes absorb: "\<And>c c' x. case_prod hit c (case_prod hit c' x) = case_prod hit c x"
  shows "lightsLoop isect bg hit ls (putHit (case_prod hit) r st)
         = putHit (case_prod hit) r
             (scan (\<lambda>c. isect (snd c))
                (concat (map (\<lambda>light. map (Pair light) (lightParts light))
                   (filter (\<lambda>light. lightIsBackground light = bg) ls))) st)"
proof (induction ls arbitrary: st)
  case Nil then show ?case by simp
next
  case (Cons l ls)
  obtain t h where st: "st = (t, h)" by (cases st)
  have eta: "hit l = (\<lambda>p. case_prod hit (l, p))" by simp
  show ?case
  proof (cases "lightIsBackground l = bg")
    case True
    have "partsLoop isect (hit l) (lightParts l) (putHit (case_prod hit) r st)
          = putHit (case_prod hit) r (scan (\<lambda>c. isect (snd c)) (map (Pair l) (lightParts l)) st)"
      unfolding st by (subst eta) (rule partsLoop_scan[OF absorb])
    then show ?thesis using True Cons.IH by (simp add: scan_append)
  next
    case False
    then show ?thesis using Cons.IH by simp
  qed
qed

lemma absorb_hitForegroundThing:
  "case_prod hitForegroundThing c (case_prod hitForegroundThing c' x) = case_prod hitForegroundThing c x"
  by (cases c; cases c') (simp add: hitForegroundThing_def)

lemma absorb_hitBackgroundThing:
  "case_prod hitBackgroundThing c (case_prod hitBackgroundThing c' x) = case_prod hitBackgroundThing c x"
  by (cases c; cases c') (simp add: hitBackgroundThing_def)

lemma absorb_hitLight:
  "case_prod hitLight c (case_prod hitLight c' x) = case_prod hitLight c x"
  by (cases c; cases c') (simp add: hitLight_def)

lemma pass_scan:
  assumes absorb: "\<And>c c' x. case_prod hitThing c (case_prod hitThing c' x) = case_prod hitThing c x"
    and over: "\<And>l q th p x. hitLight l q (hitThing th p x) = hitLight l q x"
    and things_scan: "scan (\<lambda>c. isect (snd c)) (thingCandidates env bg) (t0, None) = (t1, h1)"
    and lights_scan: "scan (\<lambda>c. isect (snd c)) (lightCandidates env bg) (t1, None) = (t2, h2)"
  shows "lightsLoop isect bg hitLight (lights env) (thingsLoop isect bg hitThing (things env) (t0, r))
         = (t2, case h2 of Some (l, q) \<Rightarrow> hitLight l q r
                | None \<Rightarrow> (case h1 of Some (th, p) \<Rightarrow> hitThing th p r | None \<Rightarrow> r))"
proof -
  define r1 where "r1 = (case h1 of Some (th, p) \<Rightarrow> hitThing th p r | None \<Rightarrow> r)"
  have "thingsLoop isect bg hitThing (things env) (putHit (case_prod hitThing) r (t0, None))
        = putHit (case_prod hitThing) r (t1, h1)"
    using thingsLoop_scan[OF absorb, of isect bg "things env" r "(t0, None)"] things_scan
    by (simp add: thingCandidates_def)
  then have things: "thingsLoop isect bg hitThing (things env) (t0, r) = (t1, r1)"
    by (simp add: putHit_def r1_def split: option.splits)
  have "lightsLoop isect bg hitLight (lights env) (putHit (case_prod hitLight) r1 (t1, None))
        = putHit (case_prod hitLight) r1 (t2, h2)"
    using lightsLoop_scan[OF absorb_hitLight, of isect bg "lights env" r1 "(t1, None)"] lights_scan
    by (simp add: lightCandidates_def)
  then have lights: "lightsLoop isect bg hitLight (lights env) (t1, r1)
        = (t2, case h2 of Some (l, q) \<Rightarrow> hitLight l q r1 | None \<Rightarrow> r1)"
    by (simp add: putHit_def split: option.splits)
  have "\<And>l q. hitLight l q r1 = hitLight l q r"
    by (simp add: r1_def over split: option.splits)
  then show ?thesis
    using things lights by (simp add: r1_def split: option.splits)
qed

text \<open>What one pass does, started at \<open>t0\<close> with the ray \<open>r\<close>.\<close>

lemma pass_cases:
  assumes absorb: "\<And>c c' x. case_prod hitThing c (case_prod hitThing c' x) = case_prod hitThing c x"
    and over: "\<And>l q th p x. hitLight l q (hitThing th p x) = hitLight l q x"
    and run: "lightsLoop isect bg hitLight (lights env)
                (thingsLoop isect bg hitThing (things env) (t0, r)) = (t2, r2)"
  shows "(t2 = t0 \<and> r2 = r
          \<and> (\<forall>c\<in>set (thingCandidates env bg). isect (snd c) \<noteq> 0 \<longrightarrow> t0 \<le> isect (snd c))
          \<and> (\<forall>c\<in>set (lightCandidates env bg). isect (snd c) \<noteq> 0 \<longrightarrow> t0 \<le> isect (snd c)))
       \<or> (t2 < t0 \<and> t2 \<noteq> 0
          \<and> (\<forall>c\<in>set (thingCandidates env bg). isect (snd c) \<noteq> 0 \<longrightarrow> t2 \<le> isect (snd c))
          \<and> (\<forall>c\<in>set (lightCandidates env bg). isect (snd c) \<noteq> 0 \<longrightarrow> t2 \<le> isect (snd c))
          \<and> ((\<exists>th p. find (\<lambda>c. isect (snd c) = t2) (thingCandidates env bg) = Some (th, p)
                      \<and> r2 = hitThing th p r)
             \<or> (find (\<lambda>c. isect (snd c) = t2) (thingCandidates env bg) = None
                \<and> (\<exists>l q. find (\<lambda>c. isect (snd c) = t2) (lightCandidates env bg) = Some (l, q)
                      \<and> r2 = hitLight l q r))))"
proof -
  obtain t1 h1 where s1: "scan (\<lambda>c. isect (snd c)) (thingCandidates env bg) (t0, None) = (t1, h1)"
    by (cases "scan (\<lambda>c. isect (snd c)) (thingCandidates env bg) (t0, None)")
  obtain t2' h2 where s2: "scan (\<lambda>c. isect (snd c)) (lightCandidates env bg) (t1, None) = (t2', h2)"
    by (cases "scan (\<lambda>c. isect (snd c)) (lightCandidates env bg) (t1, None)")
  from pass_scan[OF absorb over s1 s2, of r] run
  have t2: "t2' = t2"
    and r2: "r2 = (case h2 of Some (l, q) \<Rightarrow> hitLight l q r
                | None \<Rightarrow> (case h1 of Some (th, p) \<Rightarrow> hitThing th p r | None \<Rightarrow> r))"
    by simp_all
  note T = scan_result[OF s1] and L = scan_result[OF s2[unfolded t2]]
  from T show ?thesis
  proof (elim disjE conjE exE)
    assume T1: "t1 = t0" "h1 = None"
      and T2: "\<forall>c\<in>set (thingCandidates env bg). isect (snd c) \<noteq> 0 \<longrightarrow> t0 \<le> isect (snd c)"
    from L show ?thesis
    proof (elim disjE conjE exE)
      assume "t2 = t1" "h2 = None"
        "\<forall>c\<in>set (lightCandidates env bg). isect (snd c) \<noteq> 0 \<longrightarrow> t1 \<le> isect (snd c)"
      then show ?thesis using T1 T2 r2 by simp
    next
      fix c
      assume L1: "t2 < t1" "t2 \<noteq> 0"
        and L2: "\<forall>c\<in>set (lightCandidates env bg). isect (snd c) \<noteq> 0 \<longrightarrow> t2 \<le> isect (snd c)"
        and L3: "h2 = Some c" "find (\<lambda>x. isect (snd x) = t2) (lightCandidates env bg) = Some c"
      have none: "find (\<lambda>c. isect (snd c) = t2) (thingCandidates env bg) = None"
        using T2 L1 T1 by (fastforce simp: find_None_iff)
      have "\<forall>c\<in>set (thingCandidates env bg). isect (snd c) \<noteq> 0 \<longrightarrow> t2 \<le> isect (snd c)"
        using T2 L1 T1 by fastforce
      then show ?thesis using L1 L2 L3 T1 none r2 by (cases c) auto
    qed
  next
    fix c1
    assume T1: "t1 < t0" "t1 \<noteq> 0"
      and T2: "\<forall>c\<in>set (thingCandidates env bg). isect (snd c) \<noteq> 0 \<longrightarrow> t1 \<le> isect (snd c)"
      and T3: "h1 = Some c1" "find (\<lambda>x. isect (snd x) = t1) (thingCandidates env bg) = Some c1"
    from L show ?thesis
    proof (elim disjE conjE exE)
      assume "t2 = t1" "h2 = None"
        "\<forall>c\<in>set (lightCandidates env bg). isect (snd c) \<noteq> 0 \<longrightarrow> t1 \<le> isect (snd c)"
      then show ?thesis using T1 T2 T3 r2 by (cases c1) auto
    next
      fix c
      assume L1: "t2 < t1" "t2 \<noteq> 0"
        and L2: "\<forall>c\<in>set (lightCandidates env bg). isect (snd c) \<noteq> 0 \<longrightarrow> t2 \<le> isect (snd c)"
        and L3: "h2 = Some c" "find (\<lambda>x. isect (snd x) = t2) (lightCandidates env bg) = Some c"
      have none: "find (\<lambda>c. isect (snd c) = t2) (thingCandidates env bg) = None"
        using T2 L1 by (fastforce simp: find_None_iff)
      have "\<forall>c\<in>set (thingCandidates env bg). isect (snd c) \<noteq> 0 \<longrightarrow> t2 \<le> isect (snd c)"
        using T2 L1 by fastforce
      then show ?thesis using L1 L2 L3 T1 none r2 by (cases c) auto
    qed
  qed
qed

lemma pass_outcome:
  assumes absorb: "\<And>c c' x. case_prod hitThing c (case_prod hitThing c' x) = case_prod hitThing c x"
    and over: "\<And>l q th p x. hitLight l q (hitThing th p x) = hitLight l q x"
    and thing: "\<And>th p. hitThing th p (clearedHits r) = (clearedHits r)\<lparr>thingHit := Some th, thingPartHit := Some p\<rparr>"
    and run: "lightsLoop (hitParameter env r) bg hitLight (lights env)
                (thingsLoop (hitParameter env r) bg hitThing (things env) (INF_aux env, clearedHits r))
              = (t2, r2)"
  shows "(passMisses env r bg \<and> t2 = INF_aux env \<and> r2 = clearedHits r) \<or> passFinds env r bg t2 r2"
proof (rule disjE[OF pass_cases[OF absorb over run]])
  assume "t2 = INF_aux env \<and> r2 = clearedHits r
      \<and> (\<forall>c\<in>set (thingCandidates env bg).
             hitParameter env r (snd c) \<noteq> 0 \<longrightarrow> INF_aux env \<le> hitParameter env r (snd c))
      \<and> (\<forall>c\<in>set (lightCandidates env bg).
             hitParameter env r (snd c) \<noteq> 0 \<longrightarrow> INF_aux env \<le> hitParameter env r (snd c))"
  then have "passMisses env r bg \<and> t2 = INF_aux env \<and> r2 = clearedHits r"
    unfolding passMisses_def passParts_def by auto
  then show ?thesis by (rule disjI1)
next
  assume found: "t2 < INF_aux env \<and> t2 \<noteq> 0
      \<and> (\<forall>c\<in>set (thingCandidates env bg).
             hitParameter env r (snd c) \<noteq> 0 \<longrightarrow> t2 \<le> hitParameter env r (snd c))
      \<and> (\<forall>c\<in>set (lightCandidates env bg).
             hitParameter env r (snd c) \<noteq> 0 \<longrightarrow> t2 \<le> hitParameter env r (snd c))
      \<and> ((\<exists>th p. find (\<lambda>c. hitParameter env r (snd c) = t2) (thingCandidates env bg) = Some (th, p)
                      \<and> r2 = hitThing th p (clearedHits r))
             \<or> (find (\<lambda>c. hitParameter env r (snd c) = t2) (thingCandidates env bg) = None
                \<and> (\<exists>l q. find (\<lambda>c. hitParameter env r (snd c) = t2) (lightCandidates env bg) = Some (l, q)
                      \<and> r2 = hitLight l q (clearedHits r))))"
  then have lt: "t2 < INF_aux env" "t2 \<noteq> 0" by simp_all
  have least: "\<forall>part\<in>set (passParts env bg).
      hitParameter env r part \<noteq> 0 \<longrightarrow> t2 \<le> hitParameter env r part"
    using found unfolding passParts_def by auto
  from found have which: "(\<exists>th p. find (\<lambda>c. hitParameter env r (snd c) = t2) (thingCandidates env bg) = Some (th, p)
                      \<and> r2 = hitThing th p (clearedHits r))
             \<or> (find (\<lambda>c. hitParameter env r (snd c) = t2) (thingCandidates env bg) = None
                \<and> (\<exists>l q. find (\<lambda>c. hitParameter env r (snd c) = t2) (lightCandidates env bg) = Some (l, q)
                      \<and> r2 = hitLight l q (clearedHits r)))"
    by simp
  have hit: "case find (\<lambda>c. hitParameter env r (snd c) = t2) (thingCandidates env bg) of
        Some (th, p) \<Rightarrow> r2 = (clearedHits r)\<lparr>thingHit := Some th, thingPartHit := Some p\<rparr>
      | None \<Rightarrow>
         (case find (\<lambda>c. hitParameter env r (snd c) = t2) (lightCandidates env bg) of
            Some (l, q) \<Rightarrow> r2 = (clearedHits r)\<lparr>lightHit := Some l, lightPartHit := Some q\<rparr>
          | None \<Rightarrow> False)"
    using which
  proof (elim disjE conjE exE)
    fix th p
    assume "find (\<lambda>c. hitParameter env r (snd c) = t2) (thingCandidates env bg) = Some (th, p)"
      "r2 = hitThing th p (clearedHits r)"
    then show ?thesis by (simp add: thing)
  next
    fix l q
    assume "find (\<lambda>c. hitParameter env r (snd c) = t2) (thingCandidates env bg) = None"
      "find (\<lambda>c. hitParameter env r (snd c) = t2) (lightCandidates env bg) = Some (l, q)"
      "r2 = hitLight l q (clearedHits r)"
    then show ?thesis by (simp add: hitLight_def clearedHits_def)
  qed
  have "passFinds env r bg t2 r2"
    unfolding passFinds_def using lt least hit by blast
  then show ?thesis by (rule disjI2)
qed

lemma foregroundPass_outcome:
  assumes "foregroundPass env (hitParameter env r) (INF_aux env, clearedHits r) = (t2, r2)"
  shows "(passMisses env r False \<and> t2 = INF_aux env \<and> r2 = clearedHits r) \<or> passFinds env r False t2 r2"
  by (rule pass_outcome[OF absorb_hitForegroundThing _ _ assms[unfolded foregroundPass_def]])
     (simp_all add: hitLight_def hitForegroundThing_def clearedHits_def)

lemma backgroundPass_outcome:
  assumes "backgroundPass env (hitParameter env r) (INF_aux env, clearedHits r) = (t2, r2)"
  shows "(passMisses env r True \<and> t2 = INF_aux env \<and> r2 = clearedHits r) \<or> passFinds env r True t2 r2"
  by (rule pass_outcome[OF absorb_hitBackgroundThing _ _ assms[unfolded backgroundPass_def]])
     (simp_all add: hitLight_def hitBackgroundThing_def clearedHits_def)

lemma passFinds_hit: "passFinds env r bg t r' \<Longrightarrow> thingHit r' \<noteq> None \<or> lightHit r' \<noteq> None"
  by (auto simp: passFinds_def split: option.splits)

lemma passFinds_origin:
  "passFinds env r bg t r' \<Longrightarrow> origin r' = origin r \<and> direction r' = direction r"
  by (auto simp: passFinds_def clearedHits_def split: option.splits)

text \<open>The whole query: a miss of both passes, a find of the first, or a find of the second.\<close>

lemma traceToNextIntersection_outcome:
  assumes depth: "0 \<le> depth r"
  shows "\<exists>r2 t.
     traceToNextIntersection env r = Inr (r2\<lparr>origin := pointAt r t\<rparr>) \<and>
     ((passMisses env r False \<and> passMisses env r True \<and> t = INF_aux env \<and> r2 = clearedHits r)
      \<or> passFinds env r False t r2
      \<or> (passMisses env r False \<and> passFinds env r True t r2))"
proof -
  define isect where "isect = (\<lambda>part. intersect env part (origin (clearedHits r)) (direction (clearedHits r)))"
  have isect: "isect = hitParameter env r"
    by (simp add: isect_def hitParameter_def clearedHits_def fun_eq_iff)
  obtain t2 r2 where fg: "foregroundPass env (hitParameter env r) (INF_aux env, clearedHits r) = (t2, r2)"
    by (cases "foregroundPass env (hitParameter env r) (INF_aux env, clearedHits r)")
  obtain t3 r3 where bg: "backgroundPass env (hitParameter env r) (t2, r2) = (t3, r3)"
    by (cases "backgroundPass env (hitParameter env r) (t2, r2)")
  have unfold: "traceToNextIntersection env r =
      (if thingHit r2 \<noteq> None \<or> lightHit r2 \<noteq> None then Inr (r2\<lparr>origin := pointAt r2 t2\<rparr>)
       else Inr (r3\<lparr>origin := pointAt r3 t3\<rparr>))"
    using depth fg bg
    by (simp add: traceToNextIntersection_def Let_def clearedHits_def[symmetric]
          isect_def[symmetric] isect)
  from foregroundPass_outcome[OF fg] show ?thesis
  proof
    assume miss: "passMisses env r False \<and> t2 = INF_aux env \<and> r2 = clearedHits r"
    then have res: "traceToNextIntersection env r = Inr (r3\<lparr>origin := pointAt r3 t3\<rparr>)"
      using unfold by (simp add: clearedHits_def)
    from miss bg have bg': "backgroundPass env (hitParameter env r) (INF_aux env, clearedHits r) = (t3, r3)"
      by simp
    from backgroundPass_outcome[OF bg'] show ?thesis
    proof
      assume "passMisses env r True \<and> t3 = INF_aux env \<and> r3 = clearedHits r"
      then show ?thesis using miss res
        by (intro exI[of _ r3] exI[of _ t3]) (simp add: pointAt_def clearedHits_def)
    next
      assume f: "passFinds env r True t3 r3"
      have "pointAt r3 t3 = pointAt r t3"
        using passFinds_origin[OF f] by (simp add: pointAt_def)
      then show ?thesis using miss res f
        by (intro exI[of _ r3] exI[of _ t3]) simp
    qed
  next
    assume f: "passFinds env r False t2 r2"
    have "pointAt r2 t2 = pointAt r t2"
      using passFinds_origin[OF f] by (simp add: pointAt_def)
    moreover have "traceToNextIntersection env r = Inr (r2\<lparr>origin := pointAt r2 t2\<rparr>)"
      using unfold passFinds_hit[OF f] by auto
    ultimately show ?thesis using f
      by (intro exI[of _ r2] exI[of _ t2]) simp
  qed
qed

lemma in_thingCandidates:
  "(th, p) \<in> set (thingCandidates env bg) \<longleftrightarrow>
     th \<in> set (things env) \<and> thingIsBackground th = bg \<and> p \<in> set (thingParts th)"
  by (auto simp: thingCandidates_def)

lemma in_lightCandidates:
  "(l, q) \<in> set (lightCandidates env bg) \<longleftrightarrow>
     l \<in> set (lights env) \<and> lightIsBackground l = bg \<and> q \<in> set (lightParts l)"
  by (auto simp: lightCandidates_def)

lemma set_passParts:
  "set (passParts env bg) =
     {p. \<exists>th\<in>set (things env). thingIsBackground th = bg \<and> p \<in> set (thingParts th)}
     \<union> {q. \<exists>l\<in>set (lights env). lightIsBackground l = bg \<and> q \<in> set (lightParts l)}"
proof -
  have "snd ` set (thingCandidates env bg)
        = {p. \<exists>th\<in>set (things env). thingIsBackground th = bg \<and> p \<in> set (thingParts th)}"
  proof (intro set_eqI iffI)
    fix p assume "p \<in> snd ` set (thingCandidates env bg)"
    then obtain th where "(th, p) \<in> set (thingCandidates env bg)" by auto
    then show "p \<in> {p. \<exists>th\<in>set (things env). thingIsBackground th = bg \<and> p \<in> set (thingParts th)}"
      by (auto simp: in_thingCandidates)
  next
    fix p assume "p \<in> {p. \<exists>th\<in>set (things env). thingIsBackground th = bg \<and> p \<in> set (thingParts th)}"
    then obtain th where "(th, p) \<in> set (thingCandidates env bg)"
      by (auto simp: in_thingCandidates)
    then show "p \<in> snd ` set (thingCandidates env bg)" by force
  qed
  moreover have "snd ` set (lightCandidates env bg)
        = {q. \<exists>l\<in>set (lights env). lightIsBackground l = bg \<and> q \<in> set (lightParts l)}"
  proof (intro set_eqI iffI)
    fix q assume "q \<in> snd ` set (lightCandidates env bg)"
    then obtain l where "(l, q) \<in> set (lightCandidates env bg)" by auto
    then show "q \<in> {q. \<exists>l\<in>set (lights env). lightIsBackground l = bg \<and> q \<in> set (lightParts l)}"
      by (auto simp: in_lightCandidates)
  next
    fix q assume "q \<in> {q. \<exists>l\<in>set (lights env). lightIsBackground l = bg \<and> q \<in> set (lightParts l)}"
    then obtain l where "(l, q) \<in> set (lightCandidates env bg)"
      by (auto simp: in_lightCandidates)
    then show "q \<in> snd ` set (lightCandidates env bg)" by force
  qed
  ultimately show ?thesis by (simp add: passParts_def)
qed

lemma set_sceneParts: "set (sceneParts env) = set (passParts env False) \<union> set (passParts env True)"
  unfolding set_passParts by (auto simp: sceneParts_def)

lemma find_SomeD: "find P xs = Some x \<Longrightarrow> x \<in> set xs \<and> P x"
  by (auto simp: find_Some_iff)

lemma passFinds_cases:
  assumes "passFinds env r bg t r'"
  shows "(\<exists>th p. find (\<lambda>c. hitParameter env r (snd c) = t) (thingCandidates env bg) = Some (th, p)
            \<and> th \<in> set (things env) \<and> thingIsBackground th = bg \<and> p \<in> set (thingParts th)
            \<and> hitParameter env r p = t
            \<and> r' = (clearedHits r)\<lparr>thingHit := Some th, thingPartHit := Some p\<rparr>)
       \<or> (find (\<lambda>c. hitParameter env r (snd c) = t) (thingCandidates env bg) = None
          \<and> (\<exists>l q. find (\<lambda>c. hitParameter env r (snd c) = t) (lightCandidates env bg) = Some (l, q)
            \<and> l \<in> set (lights env) \<and> lightIsBackground l = bg \<and> q \<in> set (lightParts l)
            \<and> hitParameter env r q = t
            \<and> r' = (clearedHits r)\<lparr>lightHit := Some l, lightPartHit := Some q\<rparr>))"
proof (cases "find (\<lambda>c. hitParameter env r (snd c) = t) (thingCandidates env bg)")
  case None
  with assms obtain l q where
    f: "find (\<lambda>c. hitParameter env r (snd c) = t) (lightCandidates env bg) = Some (l, q)"
    and r': "r' = (clearedHits r)\<lparr>lightHit := Some l, lightPartHit := Some q\<rparr>"
    by (auto simp: passFinds_def split: option.splits)
  from find_SomeD[OF f] have "(l, q) \<in> set (lightCandidates env bg)" "hitParameter env r q = t"
    by simp_all
  then show ?thesis using None f r' by (simp add: in_lightCandidates)
next
  case (Some c)
  obtain th p where c: "c = (th, p)" by (cases c)
  from assms Some c have r': "r' = (clearedHits r)\<lparr>thingHit := Some th, thingPartHit := Some p\<rparr>"
    by (simp add: passFinds_def)
  from find_SomeD[OF Some] c have "(th, p) \<in> set (thingCandidates env bg)" "hitParameter env r p = t"
    by simp_all
  then show ?thesis using Some c r' by (simp add: in_thingCandidates)
qed

lemma passFinds_attained:
  assumes "passFinds env r bg t r'"
  shows "\<exists>part\<in>set (passParts env bg). hitParameter env r part = t"
  using passFinds_cases[OF assms] unfolding set_passParts by blast

lemma passFinds_not_misses: "passFinds env r bg t r' \<Longrightarrow> \<not> passMisses env r bg"
proof
  assume f: "passFinds env r bg t r'" and m: "passMisses env r bg"
  from passFinds_attained[OF f] obtain part where
    "part \<in> set (passParts env bg)" "hitParameter env r part = t" by blast
  moreover from f have "t < INF_aux env" "t \<noteq> 0" by (simp_all add: passFinds_def)
  ultimately show False using m by (auto simp: passMisses_def)
qed

lemma passMisses_iff: "passMisses env r bg \<longleftrightarrow> (\<forall>part\<in>set (passParts env bg). \<not> isHit env r part)"
  by (auto simp: passMisses_def isHit_def not_less)

lemma passFinds_unique:
  assumes a: "passFinds env r bg t r2" and b: "passFinds env r bg t' r2'"
  shows "t = t' \<and> r2 = r2'"
proof -
  from passFinds_attained[OF a] obtain p where p: "p \<in> set (passParts env bg)" "hitParameter env r p = t"
    by blast
  from passFinds_attained[OF b] obtain p' where p': "p' \<in> set (passParts env bg)" "hitParameter env r p' = t'"
    by blast
  from a have ta: "t \<noteq> 0"
    "\<forall>part\<in>set (passParts env bg). hitParameter env r part \<noteq> 0 \<longrightarrow> t \<le> hitParameter env r part"
    by (simp_all add: passFinds_def)
  from b have tb: "t' \<noteq> 0"
    "\<forall>part\<in>set (passParts env bg). hitParameter env r part \<noteq> 0 \<longrightarrow> t' \<le> hitParameter env r part"
    by (simp_all add: passFinds_def)
  have "t \<le> t'" using ta(2) p' tb(1) by auto
  moreover have "t' \<le> t" using tb(2) p ta(1) by auto
  ultimately have t: "t = t'" by simp
  from a b show ?thesis unfolding t
    by (auto simp: passFinds_def split: option.splits)
qed

lemma withoutBackground_simps:
  "thingCandidates (withoutBackground env) False = thingCandidates env False"
  "lightCandidates (withoutBackground env) False = lightCandidates env False"
  "thingCandidates (withoutBackground env) True = []"
  "lightCandidates (withoutBackground env) True = []"
  "hitParameter (withoutBackground env) = hitParameter env"
  "INF_aux (withoutBackground env) = INF_aux env"
  by (simp_all add: thingCandidates_def lightCandidates_def withoutBackground_def hitParameter_def
        fun_eq_iff)

lemma withoutBackground_pass:
  "passMisses (withoutBackground env) r False = passMisses env r False"
  "passFinds (withoutBackground env) r False t r2 = passFinds env r False t r2"
  "\<not> passFinds (withoutBackground env) r True t r2"
  by (simp_all add: passMisses_def passFinds_def passParts_def withoutBackground_simps
        cong: option.case_cong)

text \<open>
  C9. A call of \<^verbatim>\<open>traceToNextIntersection\<close> that passes its assertion returns, and
  then at most one of \<open>lightHit\<close> and \<open>thingHit\<close> is set; both are null exactly when no
  part of the scene is hit; and \<open>lightPartHit\<close> is set iff \<open>lightHit\<close> is, \<open>thingPartHit\<close>
  iff \<open>thingHit\<close>.
\<close>

theorem traceToNextIntersection_hit_slots:
  assumes "0 \<le> depth r"
  shows "\<exists>r'. traceToNextIntersection env r = Inr r'
     \<and> \<not> (lightHit r' \<noteq> None \<and> thingHit r' \<noteq> None)
     \<and> ((lightHit r' = None \<and> thingHit r' = None) \<longleftrightarrow> (\<forall>part\<in>set (sceneParts env). \<not> isHit env r part))
     \<and> ((lightPartHit r' \<noteq> None) \<longleftrightarrow> (lightHit r' \<noteq> None))
     \<and> ((thingPartHit r' \<noteq> None) \<longleftrightarrow> (thingHit r' \<noteq> None))"
proof -
  from traceToNextIntersection_outcome[OF assms, of env] obtain r2 t where
    res: "traceToNextIntersection env r = Inr (r2\<lparr>origin := pointAt r t\<rparr>)"
    and cases: "(passMisses env r False \<and> passMisses env r True \<and> t = INF_aux env \<and> r2 = clearedHits r)
      \<or> passFinds env r False t r2
      \<or> (passMisses env r False \<and> passFinds env r True t r2)"
    by blast
  have found: "\<not> (lightHit r2 \<noteq> None \<and> thingHit r2 \<noteq> None)
     \<and> \<not> (lightHit r2 = None \<and> thingHit r2 = None)
     \<and> \<not> (\<forall>part\<in>set (sceneParts env). \<not> isHit env r part)
     \<and> ((lightPartHit r2 \<noteq> None) \<longleftrightarrow> (lightHit r2 \<noteq> None))
     \<and> ((thingPartHit r2 \<noteq> None) \<longleftrightarrow> (thingHit r2 \<noteq> None))"
    if f: "passFinds env r bg t r2" for bg
  proof -
    have "\<not> passMisses env r bg" using f by (rule passFinds_not_misses)
    then have "\<not> (\<forall>part\<in>set (sceneParts env). \<not> isHit env r part)"
      unfolding passMisses_iff set_sceneParts by (cases bg) auto
    moreover have "\<not> (lightHit r2 \<noteq> None \<and> thingHit r2 \<noteq> None)"
      "\<not> (lightHit r2 = None \<and> thingHit r2 = None)"
      "(lightPartHit r2 \<noteq> None) \<longleftrightarrow> (lightHit r2 \<noteq> None)"
      "(thingPartHit r2 \<noteq> None) \<longleftrightarrow> (thingHit r2 \<noteq> None)"
      using passFinds_cases[OF f] by (auto simp: clearedHits_def)
    ultimately show ?thesis by blast
  qed
  from cases have "\<not> (lightHit r2 \<noteq> None \<and> thingHit r2 \<noteq> None)
     \<and> ((lightHit r2 = None \<and> thingHit r2 = None) \<longleftrightarrow> (\<forall>part\<in>set (sceneParts env). \<not> isHit env r part))
     \<and> ((lightPartHit r2 \<noteq> None) \<longleftrightarrow> (lightHit r2 \<noteq> None))
     \<and> ((thingPartHit r2 \<noteq> None) \<longleftrightarrow> (thingHit r2 \<noteq> None))"
  proof (elim disjE)
    assume "passMisses env r False \<and> passMisses env r True \<and> t = INF_aux env \<and> r2 = clearedHits r"
    then show ?thesis
      unfolding passMisses_iff set_sceneParts by (auto simp: clearedHits_def)
  next
    assume "passFinds env r False t r2"
    from found[OF this] show ?thesis by blast
  next
    assume "passMisses env r False \<and> passFinds env r True t r2"
    then have "passFinds env r True t r2" by simp
    from found[OF this] show ?thesis by blast
  qed
  then show ?thesis using res by simp
qed

text \<open>C9 in the scene of the wall, the glass and the lamp.\<close>

theorem traceToNextIntersection_hit_slots_witness:
  "0 \<le> depth (freshRay UnitZ White 5)
   \<and> (\<exists>r'. traceToNextIntersection shadowScene (freshRay UnitZ White 5) = Inr r'
     \<and> \<not> (lightHit r' \<noteq> None \<and> thingHit r' \<noteq> None)
     \<and> ((lightHit r' = None \<and> thingHit r' = None)
          \<longleftrightarrow> (\<forall>part\<in>set (sceneParts shadowScene). \<not> isHit shadowScene (freshRay UnitZ White 5) part))
     \<and> ((lightPartHit r' \<noteq> None) \<longleftrightarrow> (lightHit r' \<noteq> None))
     \<and> ((thingPartHit r' \<noteq> None) \<longleftrightarrow> (thingHit r' \<noteq> None)))"
proof -
  have h: "0 \<le> depth (freshRay UnitZ White 5)" by (simp add: freshRay_def)
  from traceToNextIntersection_hit_slots[OF h, of shadowScene] h show ?thesis by blast
qed

text \<open>
  C6. Let \<^verbatim>\<open>intersect\<close> keep its contract and return no negative parameter. If a
  foreground part is met at a positive parameter below \<^verbatim>\<open>INF\<close>, the query reports
  a foreground thing or light, met at the smallest positive parameter \<open>t\<close> of the
  foreground parts, and moves the origin there; the background has no say: the
  result is the one for the scene without its background surfaces.
\<close>

theorem foreground_shadows_background:
  assumes depth: "0 \<le> depth r"
    and contract: "\<forall>part\<in>set (sceneParts env). 0 \<le> hitParameter env r part"
    and fgHit: "\<exists>part\<in>set (passParts env False).
                  0 < hitParameter env r part \<and> hitParameter env r part < INF_aux env"
  shows "\<exists>r' t. traceToNextIntersection env r = Inr r'
     \<and> 0 < t
     \<and> (\<forall>part\<in>set (passParts env False). 0 < hitParameter env r part \<longrightarrow> t \<le> hitParameter env r part)
     \<and> ((\<exists>th p. thingHit r' = Some th \<and> thingPartHit r' = Some p \<and> lightHit r' = None
              \<and> th \<in> set (things env) \<and> \<not> thingIsBackground th \<and> p \<in> set (thingParts th)
              \<and> hitParameter env r p = t)
        \<or> (\<exists>l q. lightHit r' = Some l \<and> lightPartHit r' = Some q \<and> thingHit r' = None
              \<and> l \<in> set (lights env) \<and> \<not> lightIsBackground l \<and> q \<in> set (lightParts l)
              \<and> hitParameter env r q = t))
     \<and> origin r' = pointAt r t
     \<and> traceToNextIntersection (withoutBackground env) r = Inr r'"
proof -
  have nomiss: "\<not> passMisses env r False"
  proof
    assume m: "passMisses env r False"
    from fgHit obtain part where "part \<in> set (passParts env False)"
      "0 < hitParameter env r part" "hitParameter env r part < INF_aux env" by blast
    with m show False by (auto simp: passMisses_def)
  qed
  from traceToNextIntersection_outcome[OF depth, of env] nomiss obtain r2 t where
    res: "traceToNextIntersection env r = Inr (r2\<lparr>origin := pointAt r t\<rparr>)"
    and f: "passFinds env r False t r2"
    by blast
  from traceToNextIntersection_outcome[OF depth, of "withoutBackground env"] nomiss
  obtain r2' t' where
    res': "traceToNextIntersection (withoutBackground env) r = Inr (r2'\<lparr>origin := pointAt r t'\<rparr>)"
    and f': "passFinds env r False t' r2'"
    unfolding withoutBackground_pass by blast
  from passFinds_unique[OF f f'] res'
  have same: "traceToNextIntersection (withoutBackground env) r = Inr (r2\<lparr>origin := pointAt r t\<rparr>)"
    by simp
  from passFinds_attained[OF f] obtain p0 where
    p0: "p0 \<in> set (passParts env False)" "hitParameter env r p0 = t" by blast
  from f have t0: "t \<noteq> 0"
    and least: "\<forall>part\<in>set (passParts env False). hitParameter env r part \<noteq> 0 \<longrightarrow> t \<le> hitParameter env r part"
    by (simp_all add: passFinds_def)
  have "0 \<le> t" using contract p0 by (auto simp: set_sceneParts)
  with t0 have tpos: "0 < t" by simp
  have least': "\<forall>part\<in>set (passParts env False). 0 < hitParameter env r part \<longrightarrow> t \<le> hitParameter env r part"
    using least by auto
  have which: "(\<exists>th p. thingHit r2 = Some th \<and> thingPartHit r2 = Some p \<and> lightHit r2 = None
              \<and> th \<in> set (things env) \<and> \<not> thingIsBackground th \<and> p \<in> set (thingParts th)
              \<and> hitParameter env r p = t)
        \<or> (\<exists>l q. lightHit r2 = Some l \<and> lightPartHit r2 = Some q \<and> thingHit r2 = None
              \<and> l \<in> set (lights env) \<and> \<not> lightIsBackground l \<and> q \<in> set (lightParts l)
              \<and> hitParameter env r q = t)"
    using passFinds_cases[OF f] by (auto simp: clearedHits_def)
  show ?thesis
    using res same tpos least' which
    by (intro exI[of _ "r2\<lparr>origin := pointAt r t\<rparr>"] exI[of _ t]) simp
qed

text \<open>
  C6 with the glass in the foreground at 2 and the background wall at 1: the glass is
  reported.
\<close>

theorem foreground_shadows_background_witness:
  "0 \<le> depth (freshRay UnitZ White 5)
   \<and> sceneParts shadowScene = [5, 0, 1]
   \<and> 0 \<le> hitParameter shadowScene (freshRay UnitZ White 5) 5
   \<and> 0 \<le> hitParameter shadowScene (freshRay UnitZ White 5) 0
   \<and> 0 \<le> hitParameter shadowScene (freshRay UnitZ White 5) 1
   \<and> 0 \<in> set (passParts shadowScene False)
   \<and> 0 < hitParameter shadowScene (freshRay UnitZ White 5) 0
   \<and> hitParameter shadowScene (freshRay UnitZ White 5) 0 < INF_aux shadowScene
   \<and> 5 \<in> set (passParts shadowScene True)
   \<and> hitParameter shadowScene (freshRay UnitZ White 5) 5 = 1
   \<and> traceToNextIntersection shadowScene (freshRay UnitZ White 5)
       = Inr ((freshRay UnitZ White 5)\<lparr>thingHit := Some glass, thingPartHit := Some 0,
                                       origin := Triplet 0 0 2\<rparr>)
   \<and> traceToNextIntersection (withoutBackground shadowScene) (freshRay UnitZ White 5)
       = Inr ((freshRay UnitZ White 5)\<lparr>thingHit := Some glass, thingPartHit := Some 0,
                                       origin := Triplet 0 0 2\<rparr>)"
proof -
  have h1: "0 \<le> depth (freshRay UnitZ White 5)" by (simp add: freshRay_def)
  have h2: "\<forall>part\<in>set (sceneParts shadowScene). 0 \<le> hitParameter shadowScene (freshRay UnitZ White 5) part"
    by (simp add: scene_defs)
  have h3: "\<exists>part\<in>set (passParts shadowScene False).
                  0 < hitParameter shadowScene (freshRay UnitZ White 5) part
                  \<and> hitParameter shadowScene (freshRay UnitZ White 5) part < INF_aux shadowScene"
    by (simp add: scene_defs)
  from foreground_shadows_background[OF h1 h2 h3] obtain r' where
    res: "traceToNextIntersection shadowScene (freshRay UnitZ White 5) = Inr r'"
    and same: "traceToNextIntersection (withoutBackground shadowScene) (freshRay UnitZ White 5) = Inr r'"
    by blast
  have "traceToNextIntersection shadowScene (freshRay UnitZ White 5)
       = Inr ((freshRay UnitZ White 5)\<lparr>thingHit := Some glass, thingPartHit := Some 0,
                                       origin := Triplet 0 0 2\<rparr>)"
    by (simp add: scene_defs traceToNextIntersection_def foregroundPass_def backgroundPass_def
        hitForegroundThing_def hitLight_def pointAt_def Zero_def UnitZ_def Let_def)
  with res same have "traceToNextIntersection (withoutBackground shadowScene) (freshRay UnitZ White 5)
       = Inr ((freshRay UnitZ White 5)\<lparr>thingHit := Some glass, thingPartHit := Some 0,
                                       origin := Triplet 0 0 2\<rparr>)
     \<and> traceToNextIntersection shadowScene (freshRay UnitZ White 5)
       = Inr ((freshRay UnitZ White 5)\<lparr>thingHit := Some glass, thingPartHit := Some 0,
                                       origin := Triplet 0 0 2\<rparr>)"
    by simp
  then show ?thesis using h1 by (simp add: scene_defs)
qed

text \<open>
  C3 (amended). The comparison in every loop is strict, so a tie goes to the surface
  visited first. When a thing part and a light part of the deciding pass are both met
  at the least parameter \<open>t\<close> of that pass, the query reports the thing, namely the first
  thing part in the order of iteration that is met at \<open>t\<close>, and leaves \<open>lightHit\<close>
  and \<open>lightPartHit\<close> null. The background pass decides when the foreground pass
  misses.
\<close>

theorem tie_goes_to_the_earlier_surface:
  assumes depth: "0 \<le> depth r"
    and decisive: "bg \<longrightarrow> passMisses env r False"
    and thing: "th \<in> set (things env)" "thingIsBackground th = bg" "p \<in> set (thingParts th)"
               "hitParameter env r p = t"
    and light: "l \<in> set (lights env)" "lightIsBackground l = bg" "q \<in> set (lightParts l)"
               "hitParameter env r q = t"
    and hit: "t \<noteq> 0" "t < INF_aux env"
    and least: "\<forall>part\<in>set (passParts env bg). hitParameter env r part \<noteq> 0 \<longrightarrow> t \<le> hitParameter env r part"
  shows "\<exists>r' th' p'. traceToNextIntersection env r = Inr r'
     \<and> find (\<lambda>c. hitParameter env r (snd c) = t) (thingCandidates env bg) = Some (th', p')
     \<and> thingHit r' = Some th' \<and> thingPartHit r' = Some p'
     \<and> lightHit r' = None \<and> lightPartHit r' = None"
proof -
  have pin: "p \<in> set (passParts env bg)"
    using thing unfolding set_passParts by blast
  have cand: "(th, p) \<in> set (thingCandidates env bg)"
    using thing by (simp add: in_thingCandidates)
  have nomiss: "\<not> passMisses env r bg"
    using pin thing(4) hit by (auto simp: passMisses_def)
  from traceToNextIntersection_outcome[OF depth, of env] obtain r2 t' where
    res: "traceToNextIntersection env r = Inr (r2\<lparr>origin := pointAt r t'\<rparr>)"
    and cases: "(passMisses env r False \<and> passMisses env r True \<and> t' = INF_aux env \<and> r2 = clearedHits r)
      \<or> passFinds env r False t' r2
      \<or> (passMisses env r False \<and> passFinds env r True t' r2)"
    by blast
  have f: "passFinds env r bg t' r2"
  proof (cases bg)
    case True
    with decisive have "passMisses env r False" by simp
    then have "\<not> passFinds env r False t' r2" using passFinds_not_misses by blast
    with cases nomiss True show ?thesis by auto
  next
    case False
    with cases nomiss show ?thesis by auto
  qed
  from passFinds_attained[OF f] obtain p0 where
    p0: "p0 \<in> set (passParts env bg)" "hitParameter env r p0 = t'" by blast
  from f have t'0: "t' \<noteq> 0"
    and least': "\<forall>part\<in>set (passParts env bg). hitParameter env r part \<noteq> 0 \<longrightarrow> t' \<le> hitParameter env r part"
    by (simp_all add: passFinds_def)
  have "t \<le> t'" using least p0 t'0 by auto
  moreover have "t' \<le> t" using least' pin thing(4) hit(1) by auto
  ultimately have t: "t' = t" by simp
  have "find (\<lambda>c. hitParameter env r (snd c) = t) (thingCandidates env bg) \<noteq> None"
    using cand thing(4) by (auto simp: find_None_iff)
  with passFinds_cases[OF f] t obtain th' p' where
    "find (\<lambda>c. hitParameter env r (snd c) = t) (thingCandidates env bg) = Some (th', p')"
    "r2 = (clearedHits r)\<lparr>thingHit := Some th', thingPartHit := Some p'\<rparr>"
    by auto
  then show ?thesis using res
    by (intro exI[of _ "r2\<lparr>origin := pointAt r t'\<rparr>"] exI[of _ th'] exI[of _ p'])
       (simp add: clearedHits_def)
qed

text \<open>C3 (amended) for a tie in the foreground and for a tie in the background.\<close>

theorem tie_goes_to_the_earlier_surface_witness:
  "0 \<le> depth (freshRay UnitZ White 5)
   \<and> glass \<in> set (things tieScene) \<and> thingIsBackground glass = False \<and> 0 \<in> set (thingParts glass)
   \<and> hitParameter tieScene (freshRay UnitZ White 5) 0 = 2
   \<and> lamp \<in> set (lights tieScene) \<and> lightIsBackground lamp = False \<and> 1 \<in> set (lightParts lamp)
   \<and> hitParameter tieScene (freshRay UnitZ White 5) 1 = 2
   \<and> (2::real) \<noteq> 0 \<and> 2 < INF_aux tieScene
   \<and> passParts tieScene False = [0, 1]
   \<and> (\<exists>r' th' p'. traceToNextIntersection tieScene (freshRay UnitZ White 5) = Inr r'
        \<and> find (\<lambda>c. hitParameter tieScene (freshRay UnitZ White 5) (snd c) = 2)
             (thingCandidates tieScene False) = Some (th', p')
        \<and> thingHit r' = Some th' \<and> thingPartHit r' = Some p'
        \<and> lightHit r' = None \<and> lightPartHit r' = None)
   \<and> passMisses farTieScene (freshRay UnitZ White 5) False
   \<and> wall \<in> set (things farTieScene) \<and> thingIsBackground wall = True \<and> 5 \<in> set (thingParts wall)
   \<and> hitParameter farTieScene (freshRay UnitZ White 5) 5 = 2
   \<and> sun \<in> set (lights farTieScene) \<and> lightIsBackground sun = True \<and> 6 \<in> set (lightParts sun)
   \<and> hitParameter farTieScene (freshRay UnitZ White 5) 6 = 2
   \<and> passParts farTieScene True = [5, 6]
   \<and> (\<exists>r' th' p'. traceToNextIntersection farTieScene (freshRay UnitZ White 5) = Inr r'
        \<and> find (\<lambda>c. hitParameter farTieScene (freshRay UnitZ White 5) (snd c) = 2)
             (thingCandidates farTieScene True) = Some (th', p')
        \<and> thingHit r' = Some th' \<and> thingPartHit r' = Some p'
        \<and> lightHit r' = None \<and> lightPartHit r' = None)"
proof -
  have near: "\<exists>r' th' p'. traceToNextIntersection tieScene (freshRay UnitZ White 5) = Inr r'
        \<and> find (\<lambda>c. hitParameter tieScene (freshRay UnitZ White 5) (snd c) = 2)
             (thingCandidates tieScene False) = Some (th', p')
        \<and> thingHit r' = Some th' \<and> thingPartHit r' = Some p'
        \<and> lightHit r' = None \<and> lightPartHit r' = None"
    by (rule tie_goes_to_the_earlier_surface[where th = glass and p = 0 and l = lamp and q = 1])
       (simp_all add: scene_defs)
  have far: "\<exists>r' th' p'. traceToNextIntersection farTieScene (freshRay UnitZ White 5) = Inr r'
        \<and> find (\<lambda>c. hitParameter farTieScene (freshRay UnitZ White 5) (snd c) = 2)
             (thingCandidates farTieScene True) = Some (th', p')
        \<and> thingHit r' = Some th' \<and> thingPartHit r' = Some p'
        \<and> lightHit r' = None \<and> lightPartHit r' = None"
    by (rule tie_goes_to_the_earlier_surface[where th = wall and p = 5 and l = sun and q = 6])
       (simp_all add: scene_defs)
  show ?thesis using near far by (simp add: scene_defs)
qed

text \<open>
  C3 as stated fails: the glass (part 0) and the lamp (part 1) are both met at 2; the
  query reports the glass and leaves \<open>lightHit\<close> null.
\<close>

theorem tie_reports_the_thing_counterexample:
  "hitParameter tieScene (freshRay UnitZ White 5) 0 = 2
   \<and> hitParameter tieScene (freshRay UnitZ White 5) 1 = 2
   \<and> traceToNextIntersection tieScene (freshRay UnitZ White 5)
       = Inr ((freshRay UnitZ White 5)\<lparr>thingHit := Some glass, thingPartHit := Some 0,
                                       origin := Triplet 0 0 2\<rparr>)
   \<and> lightHit ((freshRay UnitZ White 5)\<lparr>thingHit := Some glass, thingPartHit := Some 0,
                                       origin := Triplet 0 0 2\<rparr>) = None"
  by (simp add: scene_defs traceToNextIntersection_def foregroundPass_def backgroundPass_def
        hitForegroundThing_def hitLight_def pointAt_def Zero_def UnitZ_def Let_def)

subsection \<open>Random direction in a hemisphere\<close>

lemma random_loop_step:
  "random_loop rnd rmax p =
     (if accepted rnd rmax p then Some (drawnTriple rnd rmax p, p + 3)
      else random_loop rnd rmax (p + 3))"
proof -
  have swap: "\<And>c (a::((real \<times> real \<times> real) \<times> nat) option) b.
      (if \<not> c then a else b) = (if c then b else a)"
    by simp
  show ?thesis
    by (subst random_loop.simps)
       (simp only: accepted_def drawnTriple_def Let_def prod.case swap)
qed

lemma random_loop_returns:
  "accepted rnd rmax (p + 3 * k) \<Longrightarrow>
     \<exists>j. accepted rnd rmax (p + 3 * j) \<and>
         random_loop rnd rmax p = Some (drawnTriple rnd rmax (p + 3 * j), p + 3 * j + 3)"
proof (induction k arbitrary: p)
  case 0
  then have "accepted rnd rmax p" by simp
  then have "random_loop rnd rmax p = Some (drawnTriple rnd rmax p, p + 3)"
    by (subst random_loop_step) (simp only: if_True)
  with \<open>accepted rnd rmax p\<close> show ?case by (intro exI[of _ 0]) simp
next
  case (Suc k)
  show ?case
  proof (cases "accepted rnd rmax p")
    case True
    then have "random_loop rnd rmax p = Some (drawnTriple rnd rmax p, p + 3)"
      by (subst random_loop_step) (simp only: if_True)
    with True show ?thesis by (intro exI[of _ 0]) simp
  next
    case False
    then have skip: "random_loop rnd rmax p = random_loop rnd rmax (p + 3)"
      by (subst random_loop_step) (simp only: if_False)
    from Suc.prems have "accepted rnd rmax (p + 3 + 3 * k)" by (simp add: algebra_simps)
    from Suc.IH[OF this] obtain j where
      j: "accepted rnd rmax (p + 3 + 3 * j)"
         "random_loop rnd rmax (p + 3) = Some (drawnTriple rnd rmax (p + 3 + 3 * j), p + 3 + 3 * j + 3)"
      by blast
    then show ?thesis unfolding skip
      by (intro exI[of _ "Suc j"]) (simp add: algebra_simps)
  qed
qed

lemma random_loop_SomeD:
  assumes "random_loop rnd rmax p = Some res"
  shows "\<exists>k. accepted rnd rmax (p + 3 * k)"
proof (rule random_loop.raw_induct[where P = "\<lambda>rnd rmax p res. \<exists>k. accepted rnd rmax (p + 3 * k)",
        OF _ assms])
  fix f :: "(nat \<Rightarrow> nat) \<Rightarrow> nat \<Rightarrow> nat \<Rightarrow> ((real \<times> real \<times> real) \<times> nat) option"
  fix rnd rmax p res
  assume IH: "\<And>rnd rmax p res. f rnd rmax p = Some res \<Longrightarrow> \<exists>k. accepted rnd rmax (p + 3 * k)"
  assume step: "(let x = real (rnd p) / real rmax * 2 - 1;
          y = real (rnd (p + 1)) / real rmax * 2 - 1;
          z = real (rnd (p + 2)) / real rmax
      in if 1 < x * x + y * y + z * z \<or> x = 0 \<and> y = 0 \<and> z = 0
         then f rnd rmax (p + 3) else Some ((x, y, z), p + 3)) = Some res"
  show "\<exists>k. accepted rnd rmax (p + 3 * k)"
  proof (cases "accepted rnd rmax p")
    case True
    then show ?thesis by (intro exI[of _ 0]) simp
  next
    case False
    then have rejected: "1 < (real (rnd p) / real rmax * 2 - 1) * (real (rnd p) / real rmax * 2 - 1)
          + (real (rnd (p + 1)) / real rmax * 2 - 1) * (real (rnd (p + 1)) / real rmax * 2 - 1)
          + real (rnd (p + 2)) / real rmax * (real (rnd (p + 2)) / real rmax)
        \<or> (real (rnd p) / real rmax * 2 - 1 = 0 \<and> real (rnd (p + 1)) / real rmax * 2 - 1 = 0
           \<and> real (rnd (p + 2)) / real rmax = 0)"
      unfolding accepted_def drawnTriple_def prod.case not_not .
    have "f rnd rmax (p + 3) = Some res"
      using step unfolding Let_def if_P[OF rejected] .
    from IH[OF this] obtain k where "accepted rnd rmax (p + 3 + 3 * k)" by blast
    then show ?thesis by (intro exI[of _ "Suc k"]) (simp add: algebra_simps)
  qed
qed

lemma random_loop_None:
  "(\<forall>k. \<not> accepted rnd rmax (p + 3 * k)) \<Longrightarrow> random_loop rnd rmax p = None"
  using random_loop_SomeD[of rnd rmax p] by (cases "random_loop rnd rmax p") auto

lemma accepted_halfDraws: "accepted halfDraws 32767 p"
  by (simp add: accepted_def drawnTriple_def halfDraws_def)

lemma rejected_zeroDraws: "\<not> accepted zeroDraws 32767 p"
  by (simp add: accepted_def drawnTriple_def zeroDraws_def)

lemma dot_self_nonneg: "0 \<le> dot v v"
  by (cases v) simp

lemma dot_scale_scale: "dot (scale v k) (scale v k) = k * k * dot v v"
  by (cases v) (simp add: algebra_simps)

lemma length_of_normalize:
  assumes "dot v v \<noteq> 0"
  shows "dot (normalize v) (normalize v) = 1"
proof -
  have pos: "0 < dot v v" using assms dot_self_nonneg[of v] by simp
  have "sqrt (dot v v) * sqrt (dot v v) = dot v v"
    using pos by simp
  then show ?thesis
    using pos by (simp add: normalize_def length_of_def dot_scale_scale field_simps)
qed

lemma dot_normalize_left: "dot (normalize v) w = dot v w / length_of v"
  by (simp add: normalize_def dot_scale_left)

lemma dot_cross_self: "dot (cross u v) u = 0" "dot (cross u v) v = 0"
  by (cases u; cases v; simp add: algebra_simps)+

lemma dot_cross_cross: "dot (cross u v) (cross u v) = dot u u * dot v v - dot u v * dot u v"
  by (cases u; cases v) (simp add: algebra_simps)

lemma unit_not_UnitZ:
  assumes "dot n n = 1" "UnitZ \<noteq> n" "neg UnitZ \<noteq> n"
  shows "dot n UnitZ * dot n UnitZ \<noteq> 1"
proof (cases n)
  case (Triplet a b c)
  show ?thesis
  proof
    assume "dot n UnitZ * dot n UnitZ = 1"
    then have c: "c * c = 1" by (simp add: Triplet UnitZ_def)
    with assms(1) have "a * a + b * b = 0" by (simp add: Triplet)
    then have "a = 0" "b = 0" by (simp_all add: sum_squares_eq_zero_iff)
    moreover from c have "c = 1 \<or> c = - 1"
      by (metis mult_cancel_right1 mult_minus_right square_eq_1_iff power2_eq_square)
    ultimately show False using assms(2,3) by (auto simp: Triplet UnitZ_def)
  qed
qed

text \<open>The two tangentials and a unit normal are an orthonormal frame.\<close>

lemma tangentials_orthonormal:
  assumes unit: "dot n n = 1" and t: "tangentials n = (tX, tY)"
  shows "dot tX tX = 1" "dot tY tY = 1" "dot tX tY = 0" "dot tX n = 0" "dot tY n = 0"
proof -
  have all: "dot tX tX = 1 \<and> dot tY tY = 1 \<and> dot tX tY = 0 \<and> dot tX n = 0 \<and> dot tY n = 0"
  proof (cases "UnitZ = n \<or> neg UnitZ = n")
    case True
    then have "tX = UnitX" "tY = UnitY" using t by (simp_all add: tangentials_def)
    with True show ?thesis by (auto simp: UnitX_def UnitY_def UnitZ_def)
  next
    case False
    define w where "w = cross n UnitZ"
    have tX: "tX = normalize w" and tY: "tY = normalize (cross n tX)"
      using t False by (auto simp: tangentials_def Let_def w_def)
    have "dot w w = 1 - dot n UnitZ * dot n UnitZ"
      by (simp add: w_def dot_cross_cross unit) (simp add: UnitZ_def)
    then have w0: "dot w w \<noteq> 0"
      using unit_not_UnitZ[OF unit] False by auto
    have xx: "dot tX tX = 1" unfolding tX by (rule length_of_normalize[OF w0])
    have xn: "dot tX n = 0" by (simp add: tX dot_normalize_left w_def dot_cross_self)
    have nx: "dot n tX = 0" using xn by (simp add: dot_commute)
    have "dot (cross n tX) (cross n tX) = 1"
      by (simp add: dot_cross_cross unit xx nx)
    then have len: "length_of (cross n tX) = 1" and v0: "dot (cross n tX) (cross n tX) \<noteq> 0"
      by (simp_all add: length_of_def)
    have yy: "dot tY tY = 1" unfolding tY by (rule length_of_normalize[OF v0])
    have yn: "dot tY n = 0" by (simp add: tY dot_normalize_left dot_cross_self)
    have "dot tY tX = 0" by (simp add: tY dot_normalize_left dot_cross_self)
    then have xy: "dot tX tY = 0" by (simp add: dot_commute)
    show ?thesis using xx yy xy xn yn by simp
  qed
  then show "dot tX tX = 1" "dot tY tY = 1" "dot tX tY = 0" "dot tX n = 0" "dot tY n = 0"
    by simp_all
qed

lemma frame_combination:
  fixes x y z :: real
  assumes "dot tX tX = 1" "dot tY tY = 1" "dot tX tY = 0" "dot tX n = 0" "dot tY n = 0" "dot n n = 1"
  defines "v \<equiv> add (add (scale tX x) (scale tY y)) (scale n z)"
  shows "dot v v = x * x + y * y + z * z" and "dot v n = z"
proof -
  have sym: "dot tY tX = 0" "dot n tX = 0" "dot n tY = 0"
    using assms by (simp_all add: dot_commute)
  show "dot v v = x * x + y * y + z * z"
    unfolding v_def
    by (simp add: dot_add_left dot_add_right dot_scale_left dot_scale_right assms(1-6) sym algebra_simps)
  show "dot v n = z"
    unfolding v_def by (simp add: dot_add_left dot_scale_left assms(1-6))
qed

text \<open>
  C8 (amended). For every unit-length normal and every outcome of the random number
  source: if some round of the rejection loop draws a triple that the loop accepts,
  \<^verbatim>\<open>Vector::random\<close> returns a unit-length vector \<open>d\<close> with \<open>d \<cdot> normal \<ge> 0\<close>;
  if no round ever does, it does not return.
\<close>

theorem Vector_random_hemisphere:
  assumes unit: "length_of normal = 1" and rmax: "0 < rmax"
  shows "if \<exists>k. accepted rnd rmax (p + 3 * k)
         then \<exists>d p'. Vector_random rnd rmax p normal = Some (d, p')
                \<and> length_of d = 1 \<and> 0 \<le> dot d normal
         else Vector_random rnd rmax p normal = None"
proof (cases "\<exists>k. accepted rnd rmax (p + 3 * k)")
  case False
  then have "random_loop rnd rmax p = None" by (intro random_loop_None) simp
  with False show ?thesis by (simp add: Vector_random_def)
next
  case True
  then obtain k where "accepted rnd rmax (p + 3 * k)" by blast
  from random_loop_returns[OF this] obtain j where
    acc: "accepted rnd rmax (p + 3 * j)"
    and loop: "random_loop rnd rmax p = Some (drawnTriple rnd rmax (p + 3 * j), p + 3 * j + 3)"
    by blast
  obtain x y z where xyz: "drawnTriple rnd rmax (p + 3 * j) = (x, y, z)"
    by (cases "drawnTriple rnd rmax (p + 3 * j)")
  obtain tX tY where t: "tangentials normal = (tX, tY)"
    by (cases "tangentials normal")
  define v where "v = add (add (scale tX x) (scale tY y)) (scale normal z)"
  have nn: "dot normal normal = 1" using unit by (simp add: length_of_unit)
  have z0: "0 \<le> z" using xyz by (auto simp: drawnTriple_def)
  from acc xyz have "\<not> (x = 0 \<and> y = 0 \<and> z = 0)" by (simp add: accepted_def)
  then have sq: "x * x + y * y + z * z \<noteq> 0"
    by (metis add_nonneg_eq_0_iff mult_eq_0_iff zero_le_square add_nonneg_nonneg)
  note F = tangentials_orthonormal[OF nn t]
  have vv: "dot v v = x * x + y * y + z * z" and vn: "dot v normal = z"
    using frame_combination[OF F nn, of x y z] by (simp_all add: v_def)
  have res: "Vector_random rnd rmax p normal = Some (normalize v, p + 3 * j + 3)"
    by (simp add: Vector_random_def loop xyz t v_def)
  have "dot (normalize v) (normalize v) = 1"
    using sq vv by (intro length_of_normalize) simp
  then have len: "length_of (normalize v) = 1" by (simp add: length_of_unit)
  have "0 \<le> length_of v" by (simp add: length_of_def dot_self_nonneg)
  then have "0 \<le> dot (normalize v) normal"
    using z0 by (simp add: dot_normalize_left vn)
  with len res True show ?thesis by simp
qed

text \<open>C8 (amended) for the normal \<open>(3/5, 0, 4/5)\<close> and the draws that are all 16384.\<close>

theorem Vector_random_hemisphere_witness:
  "length_of (Triplet (3 / 5) 0 (4 / 5)) = 1 \<and> (0::nat) < 32767
   \<and> accepted halfDraws 32767 (0 + 3 * 0)
   \<and> (\<exists>d p'. Vector_random halfDraws 32767 0 (Triplet (3 / 5) 0 (4 / 5)) = Some (d, p')
         \<and> length_of d = 1 \<and> 0 \<le> dot d (Triplet (3 / 5) 0 (4 / 5)))"
proof -
  have unit: "length_of (Triplet (3 / 5) 0 (4 / 5)) = 1"
    by (simp add: length_of_def)
  have rmax: "(0::nat) < 32767" by simp
  have acc: "accepted halfDraws 32767 (0 + 3 * 0)" by (rule accepted_halfDraws)
  then have ex: "\<exists>k. accepted halfDraws 32767 (0 + 3 * k)" by blast
  from Vector_random_hemisphere[OF unit rmax, of halfDraws 0] ex
  have "\<exists>d p'. Vector_random halfDraws 32767 0 (Triplet (3 / 5) 0 (4 / 5)) = Some (d, p')
         \<and> length_of d = 1 \<and> 0 \<le> dot d (Triplet (3 / 5) 0 (4 / 5))"
    by simp
  with unit acc show ?thesis by simp
qed

text \<open>
  C8 as stated fails: when every draw is 0 each round has \<open>x = y = -1\<close>, \<open>z = 0\<close>, which the
  loop rejects, and \<^verbatim>\<open>Vector::random\<close> never returns.
\<close>

theorem Vector_random_never_returns_counterexample:
  "length_of UnitZ = 1 \<and> Vector_random zeroDraws 32767 0 UnitZ = None"
proof -
  have "random_loop zeroDraws 32767 0 = None"
    by (rule random_loop_None) (simp add: rejected_zeroDraws)
  then show ?thesis
    by (simp add: Vector_random_def length_of_def UnitZ_def)
qed

subsection \<open>The recursion of the path tracer\<close>

lemma returnsWithin_Returns:
  "traceCalls r' = traceCalls r \<Longrightarrow> depth r' = depth r \<Longrightarrow> returnsWithin (Returns (c, r')) r 0 b"
  by (simp add: returnsWithin_def)

lemma returnsWithin_transfer:
  "returnsWithin out r2 l b \<Longrightarrow> traceCalls r2 = traceCalls r \<Longrightarrow> depth r2 = depth r \<Longrightarrow>
     returnsWithin out r l b"
  by (simp add: returnsWithin_def)

lemma roulette_fields:
  assumes "russianRoulette env r = (kill, r')"
  shows "depth r' = depth r" "traceCalls r' = traceCalls r" "thingHit r' = thingHit r"
    "thingPartHit r' = thingPartHit r"
  using assms by (auto simp: russianRoulette_def Let_def split: if_splits)

lemma traceToNextIntersection_returns:
  assumes "0 \<le> depth r"
  shows "\<exists>r'. traceToNextIntersection env r = Inr r' \<and> depth r' = depth r
           \<and> traceCalls r' = traceCalls r \<and> (thingHit r' = None \<or> thingPartHit r' \<noteq> None)"
proof -
  from traceToNextIntersection_outcome[OF assms, of env] obtain r2 t where
    res: "traceToNextIntersection env r = Inr (r2\<lparr>origin := pointAt r t\<rparr>)"
    and cases: "(passMisses env r False \<and> passMisses env r True \<and> t = INF_aux env \<and> r2 = clearedHits r)
      \<or> passFinds env r False t r2
      \<or> (passMisses env r False \<and> passFinds env r True t r2)"
    by blast
  have found: "depth r2 = depth r \<and> traceCalls r2 = traceCalls r
      \<and> (thingHit r2 = None \<or> thingPartHit r2 \<noteq> None)"
    if "passFinds env r bg t r2" for bg
    using passFinds_cases[OF that] by (auto simp: clearedHits_def)
  from cases have "depth r2 = depth r \<and> traceCalls r2 = traceCalls r
      \<and> (thingHit r2 = None \<or> thingPartHit r2 \<noteq> None)"
    using found by (auto simp: clearedHits_def)
  then show ?thesis using res by simp
qed

lemma Vector_random_returns:
  assumes "\<exists>k. accepted rnd rmax (p + 3 * k)"
  shows "\<exists>d p'. Vector_random rnd rmax p normal = Some (d, p')"
proof -
  from assms obtain k where "accepted rnd rmax (p + 3 * k)" by blast
  from random_loop_returns[OF this] obtain j where
    "random_loop rnd rmax p = Some (drawnTriple rnd rmax (p + 3 * j), p + 3 * j + 3)"
    by blast
  then show ?thesis
    by (cases "drawnTriple rnd rmax (p + 3 * j)")
       (simp add: Vector_random_def Let_def split: prod.splits)
qed

text \<open>The tail that the four bounces share: the query, then \<^verbatim>\<open>trace\<close>.\<close>

lemma query_then_trace:
  assumes deep: "1 \<le> depth r"
    and IH: "\<And>r5. depth r5 = depth r \<Longrightarrow> thingHit r5 = None \<or> thingPartHit r5 \<noteq> None \<Longrightarrow>
               returnsWithin (trace env r5) r5 1 (max 1 (nat (depth r5)))"
  shows "returnsWithin (case traceToNextIntersection env r of
                          Inl e \<Rightarrow> Fails e | Inr r5 \<Rightarrow> trace env r5) r 0 (nat (depth r))"
    and "returnsWithin (case traceToNextIntersection env r of
                          Inl e \<Rightarrow> Fails e
                        | Inr r5 \<Rightarrow> (case trace env r5 of
                                      Returns (c, r6) \<Rightarrow> Returns (g c, r6)
                                    | Fails e \<Rightarrow> Fails e
                                    | Diverges \<Rightarrow> Diverges)) r 0 (nat (depth r))"
proof -
  from deep have "0 \<le> depth r" by simp
  from traceToNextIntersection_returns[OF this, of env] obtain r5 where
    q: "traceToNextIntersection env r = Inr r5" and d: "depth r5 = depth r"
    and c: "traceCalls r5 = traceCalls r" and h: "thingHit r5 = None \<or> thingPartHit r5 \<noteq> None"
    by blast
  from IH[OF d h] obtain col r' n where
    t: "trace env r5 = Returns (col, r')" "traceCalls r' = traceCalls r5 + n" "1 \<le> n"
      "n \<le> max 1 (nat (depth r5))" "depth r5 - int n \<le> depth r'" "depth r' \<le> depth r5"
    unfolding returnsWithin_def by blast
  have n: "n \<le> nat (depth r)" using t(4) deep d by simp
  show "returnsWithin (case traceToNextIntersection env r of
                          Inl e \<Rightarrow> Fails e | Inr r5 \<Rightarrow> trace env r5) r 0 (nat (depth r))"
    unfolding returnsWithin_def q using t n c d
    by (intro exI[of _ col] exI[of _ r'] exI[of _ n]) simp
  show "returnsWithin (case traceToNextIntersection env r of
                          Inl e \<Rightarrow> Fails e
                        | Inr r5 \<Rightarrow> (case trace env r5 of
                                      Returns (c, r6) \<Rightarrow> Returns (g c, r6)
                                    | Fails e \<Rightarrow> Fails e
                                    | Diverges \<Rightarrow> Diverges)) r 0 (nat (depth r))"
    unfolding returnsWithin_def q using t n c d
    by (intro exI[of _ "g col"] exI[of _ r'] exI[of _ n]) simp
qed

lemma bounceReflect_returns:
  assumes hits: "thingPartHit r \<noteq> None"
    and IH: "\<And>r5. depth r5 = depth r \<Longrightarrow> 1 \<le> depth r \<Longrightarrow> thingHit r5 = None \<or> thingPartHit r5 \<noteq> None \<Longrightarrow>
               returnsWithin (trace env r5) r5 1 (max 1 (nat (depth r5)))"
  shows "returnsWithin (bounceReflect env r) r 0 (nat (depth r))"
proof (cases "depth r < 1")
  case True
  then show ?thesis
    by (subst bounceReflect.simps) (simp add: returnsWithin_Returns)
next
  case False
  obtain kill r1 where rr: "russianRoulette env r = (kill, r1)"
    by (cases "russianRoulette env r")
  note f = roulette_fields[OF rr]
  show ?thesis
  proof (cases kill)
    case True
    with False rr f show ?thesis
      by (subst bounceReflect.simps) (simp add: returnsWithin_Returns)
  next
    case live: False
    from hits f obtain part where part: "thingPartHit r1 = Some part" by auto
    define r2 where "r2 = reflectStep (getNormal env part (origin r1)) r1"
    have r2: "depth r2 = depth r" "traceCalls r2 = traceCalls r"
      by (simp_all add: r2_def reflectStep_def f)
    have "returnsWithin (case traceToNextIntersection env r2 of
                          Inl e \<Rightarrow> Fails e | Inr r5 \<Rightarrow> trace env r5) r2 0 (nat (depth r2))"
      using False r2 IH by (intro query_then_trace(1)) auto
    then have "returnsWithin (case traceToNextIntersection env r2 of
                          Inl e \<Rightarrow> Fails e | Inr r5 \<Rightarrow> trace env r5) r 0 (nat (depth r))"
      using r2 by (auto intro: returnsWithin_transfer)
    then show ?thesis
      using False rr live part
      by (subst bounceReflect.simps) (simp add: Let_def r2_def)
  qed
qed

lemma bounceRefract_returns:
  assumes hits: "thingHit r \<noteq> None" "thingPartHit r \<noteq> None"
    and IH: "\<And>r5. depth r5 = depth r \<Longrightarrow> 1 \<le> depth r \<Longrightarrow> thingHit r5 = None \<or> thingPartHit r5 \<noteq> None \<Longrightarrow>
               returnsWithin (trace env r5) r5 1 (max 1 (nat (depth r5)))"
  shows "returnsWithin (bounceRefract env r) r 0 (nat (depth r))"
proof (cases "depth r < 1")
  case True
  then show ?thesis
    by (subst bounceRefract.simps) (simp add: returnsWithin_Returns)
next
  case False
  obtain kill r1 where rr: "russianRoulette env r = (kill, r1)"
    by (cases "russianRoulette env r")
  note f = roulette_fields[OF rr]
  show ?thesis
  proof (cases kill)
    case True
    with False rr f show ?thesis
      by (subst bounceRefract.simps) (simp add: returnsWithin_Returns)
  next
    case live: False
    from hits f obtain thing part where
      part: "thingHit r1 = Some thing" "thingPartHit r1 = Some part" by auto
    define r2 where "r2 = refractStep thing (getNormal env part (origin r1)) r1"
    have r2: "depth r2 = depth r" "traceCalls r2 = traceCalls r"
      by (simp_all add: r2_def refractStep_def Let_def f split: prod.splits)
    have "returnsWithin (case traceToNextIntersection env r2 of
                          Inl e \<Rightarrow> Fails e | Inr r5 \<Rightarrow> trace env r5) r2 0 (nat (depth r2))"
      using False r2 IH by (intro query_then_trace(1)) auto
    then have "returnsWithin (case traceToNextIntersection env r2 of
                          Inl e \<Rightarrow> Fails e | Inr r5 \<Rightarrow> trace env r5) r 0 (nat (depth r))"
      using r2 by (auto intro: returnsWithin_transfer)
    then show ?thesis
      using False rr live part
      by (subst bounceRefract.simps) (simp add: Let_def r2_def)
  qed
qed

lemma bounceMetallic_returns:
  assumes hits: "thingHit r \<noteq> None" "thingPartHit r \<noteq> None"
    and IH: "\<And>r5. depth r5 = depth r \<Longrightarrow> 1 \<le> depth r \<Longrightarrow> thingHit r5 = None \<or> thingPartHit r5 \<noteq> None \<Longrightarrow>
               returnsWithin (trace env r5) r5 1 (max 1 (nat (depth r5)))"
  shows "returnsWithin (bounceMetallic env r) r 0 (nat (depth r))"
proof -
  from hits obtain thing part where
    part: "thingHit r = Some thing" "thingPartHit r = Some part" by auto
  obtain into n1 n2 where idx: "mediumIndices (insideThings r) thing = (into, n1, n2)"
    by (cases "mediumIndices (insideThings r) thing")
  define surfaceNormal where "surfaceNormal = getNormal env part (origin r)"
  define r1 where "r1 = reflectStep surfaceNormal r"
  define r2 where "r2 = paint r1 (scale White (schlick n1 n2 (dot (direction r1) surfaceNormal)))"
  have r2: "depth r2 = depth r" "traceCalls r2 = traceCalls r"
    by (simp_all add: r2_def r1_def reflectStep_def paint_def)
  have unfold: "bounceMetallic env r =
      (if depth r2 < 1 then Returns (Black, r2)
       else let (kill, r3) = russianRoulette env r2
            in if kill then Returns (Black, r3)
               else (case traceToNextIntersection env r3 of
                       Inl e \<Rightarrow> Fails e | Inr r4 \<Rightarrow> trace env r4))"
    by (subst bounceMetallic.simps)
       (simp add: part idx Let_def surfaceNormal_def r1_def r2_def)
  show ?thesis
  proof (cases "depth r < 1")
    case True
    then show ?thesis unfolding unfold using r2 by (simp add: returnsWithin_Returns)
  next
    case False
    obtain kill r3 where rr: "russianRoulette env r2 = (kill, r3)"
      by (cases "russianRoulette env r2")
    note f = roulette_fields[OF rr]
    show ?thesis
    proof (cases kill)
      case True
      with False rr f r2 show ?thesis unfolding unfold by (simp add: returnsWithin_Returns)
    next
      case live: False
      have r3: "depth r3 = depth r" "traceCalls r3 = traceCalls r" using f r2 by simp_all
      have "returnsWithin (case traceToNextIntersection env r3 of
                            Inl e \<Rightarrow> Fails e | Inr r5 \<Rightarrow> trace env r5) r3 0 (nat (depth r3))"
        using False r3 IH by (intro query_then_trace(1)) auto
      then have "returnsWithin (case traceToNextIntersection env r3 of
                            Inl e \<Rightarrow> Fails e | Inr r5 \<Rightarrow> trace env r5) r 0 (nat (depth r))"
        using r3 by (auto intro: returnsWithin_transfer)
      then show ?thesis unfolding unfold using False rr live r2 by simp
    qed
  qed
qed

lemma bounceDiffuse_returns:
  assumes fair: "fairSource env"
    and hits: "thingPartHit r \<noteq> None"
    and IH: "\<And>r5. depth r5 = depth r \<Longrightarrow> 1 \<le> depth r \<Longrightarrow> thingHit r5 = None \<or> thingPartHit r5 \<noteq> None \<Longrightarrow>
               returnsWithin (trace env r5) r5 1 (max 1 (nat (depth r5)))"
  shows "returnsWithin (bounceDiffuse env r) r 0 (nat (depth r))"
proof -
  from hits obtain part where part: "thingPartHit r = Some part" by auto
  define surfaceNormal where "surfaceNormal = getNormal env part (origin r)"
  obtain light g where dl: "getDirectLight env (origin r) surfaceNormal (rngPos r) = (light, g)"
    by (cases "getDirectLight env (origin r) surfaceNormal (rngPos r)")
  define r1 where "r1 = r\<lparr>rngPos := g\<rparr>"
  define currentColor where "currentColor = tint (color r1) light"
  have r1: "depth r1 = depth r" "traceCalls r1 = traceCalls r" by (simp_all add: r1_def)
  obtain kill r2 where rr: "russianRoulette env r1 = (kill, r2)"
    by (cases "russianRoulette env r1")
  note f = roulette_fields[OF rr]
  from fair obtain d g' where vr:
    "Vector_random (rand env) (RAND_MAX env) (rngPos r2) surfaceNormal = Some (d, g')"
    using Vector_random_returns[of "rand env" "RAND_MAX env" "rngPos r2" surfaceNormal]
    unfolding fairSource_def by blast
  define r3 where "r3 = r2\<lparr>direction := d, rngPos := g'\<rparr>"
  define r4 where "r4 = paint r3 (scale White (dot (direction r3) surfaceNormal))"
  have r4: "depth r4 = depth r" "traceCalls r4 = traceCalls r"
    by (simp_all add: r4_def r3_def paint_def f r1)
  have unfold: "bounceDiffuse env r =
      (if depth r1 < 1 then Returns (currentColor, r1)
       else if kill then Returns (currentColor, r2)
       else (case traceToNextIntersection env r4 of
               Inl e \<Rightarrow> Fails e
             | Inr r5 \<Rightarrow> (case trace env r5 of
                           Returns (c, r6) \<Rightarrow> Returns (add currentColor c, r6)
                         | Fails e \<Rightarrow> Fails e
                         | Diverges \<Rightarrow> Diverges)))"
    by (subst bounceDiffuse.simps)
       (simp add: part dl[unfolded surfaceNormal_def] rr[unfolded r1_def]
          vr[unfolded surfaceNormal_def] Let_def surfaceNormal_def r1_def currentColor_def
          r3_def r4_def cong: sum.case_cong outcome.case_cong)
  show ?thesis
  proof (cases "depth r < 1")
    case True
    then show ?thesis unfolding unfold using r1 by (simp add: returnsWithin_Returns)
  next
    case False
    show ?thesis
    proof (cases kill)
      case True
      with False f r1 show ?thesis unfolding unfold by (simp add: returnsWithin_Returns)
    next
      case live: False
      have "returnsWithin (case traceToNextIntersection env r4 of
               Inl e \<Rightarrow> Fails e
             | Inr r5 \<Rightarrow> (case trace env r5 of
                           Returns (c, r6) \<Rightarrow> Returns (add currentColor c, r6)
                         | Fails e \<Rightarrow> Fails e
                         | Diverges \<Rightarrow> Diverges)) r4 0 (nat (depth r4))"
        using False r4 IH by (intro query_then_trace(2)) auto
      then have "returnsWithin (case traceToNextIntersection env r4 of
               Inl e \<Rightarrow> Fails e
             | Inr r5 \<Rightarrow> (case trace env r5 of
                           Returns (c, r6) \<Rightarrow> Returns (add currentColor c, r6)
                         | Fails e \<Rightarrow> Fails e
                         | Diverges \<Rightarrow> Diverges)) r 0 (nat (depth r))"
        using r4 by (auto intro: returnsWithin_transfer)
      then show ?thesis unfolding unfold using False live r1 by simp
    qed
  qed
qed

lemma trace_returns:
  assumes fair: "fairSource env"
    and wf: "thingHit r = None \<or> thingPartHit r \<noteq> None"
  shows "returnsWithin (trace env r) r 1 (max 1 (nat (depth r)))"
  using wf
proof (induction "nat (depth r)" arbitrary: r rule: less_induct)
  case less
  define r0 where "r0 = r\<lparr>traceCalls := traceCalls r + 1\<rparr>"
  show ?case
  proof (cases "Black = color r \<or> depth r < 0")
    case True
    then have "trace env r = Returns (Black, r0)"
      by (subst trace.simps) (auto simp: Let_def r0_def)
    then show ?thesis
      unfolding returnsWithin_def
      by (intro exI[of _ Black] exI[of _ r0] exI[of _ 1]) (simp add: r0_def)
  next
    case alive: False
    show ?thesis
    proof (cases "lightHit r")
      case (Some light)
      have "trace env r = Returns (color (paint r0 (lightEmission light)), paint r0 (lightEmission light))"
        using alive Some by (subst trace.simps) (auto simp: Let_def r0_def)
      then show ?thesis
        unfolding returnsWithin_def
        by (intro exI[of _ "color (paint r0 (lightEmission light))"]
              exI[of _ "paint r0 (lightEmission light)"] exI[of _ 1])
           (simp add: r0_def paint_def)
    next
      case None
      show ?thesis
      proof (cases "thingHit r")
        case miss: None
        have "trace env r = Returns (color (paint r0 (sky env)), paint r0 (sky env))"
          using alive None miss by (subst trace.simps) (auto simp: Let_def r0_def)
        then show ?thesis
          unfolding returnsWithin_def
          by (intro exI[of _ "color (paint r0 (sky env))"] exI[of _ "paint r0 (sky env)"] exI[of _ 1])
             (simp add: r0_def paint_def)
      next
        case (Some thing)
        define r2 where "r2 = (paint r0 (thingColor thing))\<lparr>depth := depth r - 1\<rparr>"
        obtain material g where mat: "interact env thing (rngPos r2) = (material, g)"
          by (cases "interact env thing (rngPos r2)")
        define r3 where "r3 = r2\<lparr>rngPos := g\<rparr>"
        have r3: "depth r3 = depth r - 1" "traceCalls r3 = traceCalls r + 1"
          "thingHit r3 = Some thing" "thingPartHit r3 = thingPartHit r"
          by (simp_all add: r3_def r2_def r0_def paint_def Some)
        have part: "thingPartHit r3 \<noteq> None" using less.prems Some r3 by simp
        have unfold: "trace env r =
            (case material of
               DIFFUSE \<Rightarrow> bounceDiffuse env r3
             | METALLIC \<Rightarrow> bounceMetallic env r3
             | REFLECT \<Rightarrow> bounceReflect env r3
             | REFRACT \<Rightarrow> bounceRefract env r3)"
        proof -
          have mat': "interact env thing (rngPos r) = (material, g)"
            using mat by (simp add: r2_def r0_def paint_def)
          show ?thesis
            using alive None Some
            by (cases material; subst trace.simps)
               (simp_all add: Let_def mat' r3_def r2_def r0_def paint_def)
        qed
        have IH: "returnsWithin (trace env r5) r5 1 (max 1 (nat (depth r5)))"
          if "depth r5 = depth r3" "1 \<le> depth r3" "thingHit r5 = None \<or> thingPartHit r5 \<noteq> None"
          for r5
        proof -
          have "nat (depth r5) < nat (depth r)" using that r3 by simp
          then show ?thesis using that(3) by (rule less.hyps)
        qed
        have bounce: "returnsWithin (trace env r) r3 0 (nat (depth r3))"
        proof (cases material)
          case DIFFUSE
          then show ?thesis unfolding unfold
            using bounceDiffuse_returns[OF fair part IH] by simp
        next
          case METALLIC
          then show ?thesis unfolding unfold
            using bounceMetallic_returns[OF _ part IH] r3 by simp
        next
          case REFLECT
          then show ?thesis unfolding unfold
            using bounceReflect_returns[OF part IH] by simp
        next
          case REFRACT
          then show ?thesis unfolding unfold
            using bounceRefract_returns[OF _ part IH] r3 by simp
        qed
        then obtain c r' n where
          res: "trace env r = Returns (c, r')" "traceCalls r' = traceCalls r3 + n"
            "n \<le> nat (depth r3)" "depth r3 - int n \<le> depth r'" "depth r' \<le> depth r3"
          unfolding returnsWithin_def by blast
        have "0 \<le> depth r" using alive by simp
        then show ?thesis
          unfolding returnsWithin_def using res r3
          by (intro exI[of _ c] exI[of _ r'] exI[of _ "Suc n"]) auto
      qed
    qed
  qed
qed

text \<open>
  C7 (amended). Let every rejection loop of \<^verbatim>\<open>Vector::random\<close> end, and let the ray
  hold a part whenever it holds a thing (as the query leaves it). Then \<^verbatim>\<open>trace\<close>
  returns, after \<open>n\<close> recursive entries into \<^verbatim>\<open>trace\<close> with \<open>n \<le> depth\<close> (indeed
  \<open>1 + n \<le> max 1 depth\<close>), and \<open>depth\<close> has gone down by \<open>1 + n\<close> at most.
\<close>

theorem trace_terminates_within_depth:
  assumes "fairSource env" and "thingHit r = None \<or> thingPartHit r \<noteq> None"
  shows "\<exists>c r' n. trace env r = Returns (c, r')
           \<and> traceCalls r' = traceCalls r + 1 + n
           \<and> n \<le> nat (depth r) \<and> 1 + n \<le> max 1 (nat (depth r))
           \<and> depth r - 1 - int n \<le> depth r' \<and> depth r' \<le> depth r"
proof -
  from trace_returns[OF assms] obtain c r' m where
    res: "trace env r = Returns (c, r')" "traceCalls r' = traceCalls r + m" "1 \<le> m"
      "m \<le> max 1 (nat (depth r))" "depth r - int m \<le> depth r'" "depth r' \<le> depth r"
    unfolding returnsWithin_def by blast
  then show ?thesis
    by (intro exI[of _ c] exI[of _ r'] exI[of _ "m - 1"]) auto
qed

text \<open>C7 (amended) for a ray of depth 3 on a diffuse thing, with draws that are all 16384.\<close>

theorem trace_terminates_within_depth_witness:
  "fairSource (diffuseScene halfDraws)
   \<and> thingPartHit (hitRay glass 0 3) = Some 0
   \<and> (\<exists>c r' n. trace (diffuseScene halfDraws) (hitRay glass 0 3) = Returns (c, r')
           \<and> traceCalls r' = traceCalls (hitRay glass 0 3) + 1 + n
           \<and> n \<le> nat (depth (hitRay glass 0 3)) \<and> 1 + n \<le> max 1 (nat (depth (hitRay glass 0 3)))
           \<and> depth (hitRay glass 0 3) - 1 - int n \<le> depth r' \<and> depth r' \<le> depth (hitRay glass 0 3))"
proof -
  have fair: "fairSource (diffuseScene halfDraws)"
    unfolding fairSource_def
    by (simp add: diffuseScene_def plainEnv_def accepted_halfDraws)
  have wf: "thingHit (hitRay glass 0 3) = None \<or> thingPartHit (hitRay glass 0 3) \<noteq> None"
    by (simp add: hitRay_def)
  from trace_terminates_within_depth[OF fair wf] fair show ?thesis
    by (simp add: hitRay_def)
qed

text \<open>
  C7 as stated fails: a white ray of depth 5 on a diffuse white thing, \<open>rrLimit = 1\<close>
  (no roulette draw), and draws that are all 0. \<^verbatim>\<open>bounceDiffuse\<close> calls
  \<^verbatim>\<open>Vector::random\<close>, whose loop rejects every round: \<^verbatim>\<open>trace\<close> never returns.
\<close>

theorem trace_diverges_counterexample:
  "trace (diffuseScene zeroDraws) (hitRay glass 0 5) = Diverges"
proof -
  have "random_loop zeroDraws 32767 0 = None"
    by (rule random_loop_None) (simp add: rejected_zeroDraws)
  then have stuck: "Vector_random zeroDraws 32767 0 UnitZ = None"
    by (simp add: Vector_random_def)
  have "bounceDiffuse (diffuseScene zeroDraws)
          ((hitRay glass 0 5)\<lparr>traceCalls := 1, depth := 4\<rparr>) = Diverges"
    by (subst bounceDiffuse.simps)
       (simp add: diffuseScene_def plainEnv_def hitRay_def freshRay_def russianRoulette_def
          White_def Let_def stuck)
  then show ?thesis
    by (subst trace.simps)
       (simp add: diffuseScene_def plainEnv_def hitRay_def freshRay_def paint_def glass_def
          White_def Black_def Let_def)
qed

end
